(* ===== verification/Prelude.thy ===== *)
theory Prelude
  imports Main "HOL-Library.Word" "HOL-Library.AList" "HOL-Library.List_Lexorder"
begin

text \<open>
  Shared vocabulary of the development.

  \<^item> machine integers: \<open>u8\<close>, \<open>u16\<close>, \<open>u32\<close>, \<open>u64\<close> are words of that width; an \<open>i64\<close> and the bit
    pattern of an \<open>f64\<close> are kept as 64-bit words, which is what \<open>to_le_bytes\<close> and
    \<open>from_le_bytes\<close> see of them; \<open>usize\<close> is \<open>nat\<close> (the code's lengths are those of vectors in
    memory, so they do not wrap on a 64-bit machine);
  \<^item> \<open>to_le_bytes\<close>, \<open>from_le_bytes\<close> and their big-endian versions, with both round trips;
  \<^item> \<open>and_then\<close>, the sequencing that \<open>?\<close> performs on a \<open>Result\<close>;
  \<^item> \<open>splice\<close>, overwriting a region of a byte vector (\<open>copy_from_slice\<close>, a positioned write).
\<close>

section \<open>Machine integers and text\<close>

type_synonym u8 = "8 word"
type_synonym u16 = "16 word"
type_synonym u32 = "32 word"
type_synonym u64 = "64 word"
type_synonym i64 = "64 word"
type_synonym f64_bits = "64 word"
type_synonym bytes = "8 word list"

text \<open>A Rust \<open>String\<close> is the list of its UTF-8 bytes; \<open>ascii\<close> gives that of a literal.\<close>

type_synonym rstring = "8 word list"

definition ascii :: "string \<Rightarrow> rstring" where
  "ascii s = map of_char s"

lemma ascii_Nil [simp]: "ascii [] = []"
  by (simp add: ascii_def)

lemma ascii_Cons [simp]: "ascii (c # cs) = of_char c # ascii cs"
  by (simp add: ascii_def)

lemma length_ascii [simp]: "length (ascii s) = length s"
  by (simp add: ascii_def)

section \<open>Lemma collections\<close>

text \<open>
  \<open>seq_iff\<close>: when a sequenced computation returns or fails;
  \<open>read_simps\<close>: how the cursor reads of the decoders run on a known remaining input.
\<close>

named_theorems seq_iff
named_theorems read_simps

section \<open>Results\<close>

text \<open>A \<open>Result<T, E>\<close> is \<open>'e + 'a\<close>, with \<open>Inl\<close> for \<open>Err\<close>; \<open>and_then\<close> is \<open>?\<close>.\<close>

definition and_then :: "'e + 'a \<Rightarrow> ('a \<Rightarrow> 'e + 'b) \<Rightarrow> 'e + 'b" where
  "and_then m f = (case m of Inl e \<Rightarrow> Inl e | Inr x \<Rightarrow> f x)"

lemma and_then_simps [simp]:
  "and_then (Inl e) f = Inl e"
  "and_then (Inr x) f = f x"
  by (simp_all add: and_then_def)

lemma and_then_Inr_iff [seq_iff]: "and_then m f = Inr y \<longleftrightarrow> (\<exists>x. m = Inr x \<and> f x = Inr y)"
  by (cases m) auto

lemma and_then_Inl_iff [seq_iff]:
  "and_then m f = Inl e \<longleftrightarrow> m = Inl e \<or> (\<exists>x. m = Inr x \<and> f x = Inl e)"
  by (cases m) auto

lemma and_then_assoc: "and_then (and_then m f) g = and_then m (\<lambda>x. and_then (f x) g)"
  by (cases m) auto

lemma and_then_cong [fundef_cong]:
  assumes "m = m'" and "\<And>x. m' = Inr x \<Longrightarrow> f x = f' x"
  shows "and_then m f = and_then m' f'"
  using assms by (cases m') auto

definition map_err :: "('e \<Rightarrow> 'f) \<Rightarrow> 'e + 'a \<Rightarrow> 'f + 'a" where
  "map_err h m = (case m of Inl e \<Rightarrow> Inl (h e) | Inr x \<Rightarrow> Inr x)"

lemma map_err_simps [simp]:
  "map_err h (Inl e) = Inl (h e)"
  "map_err h (Inr x) = Inr x"
  by (simp_all add: map_err_def)

section \<open>Byte order\<close>

primrec to_le_bytes :: "nat \<Rightarrow> 'a::len word \<Rightarrow> bytes" where
  "to_le_bytes 0 w = []"
| "to_le_bytes (Suc n) w = ucast w # to_le_bytes n (drop_bit 8 w)"

fun from_le_bytes :: "bytes \<Rightarrow> 'a::len word" where
  "from_le_bytes [] = 0"
| "from_le_bytes (b # bs) = or (ucast b) (push_bit 8 (from_le_bytes bs))"

definition to_be_bytes :: "nat \<Rightarrow> 'a::len word \<Rightarrow> bytes" where
  "to_be_bytes n w = rev (to_le_bytes n w)"

definition from_be_bytes :: "bytes \<Rightarrow> 'a::len word" where
  "from_be_bytes bs = from_le_bytes (rev bs)"

lemma length_to_le_bytes [simp]: "length (to_le_bytes n w) = n"
  by (induction n arbitrary: w) auto

lemma length_to_be_bytes [simp]: "length (to_be_bytes n w) = n"
  by (simp add: to_be_bytes_def)

lemma to_le_bytes_eq_Nil_iff [simp]: "to_le_bytes n w = [] \<longleftrightarrow> n = 0"
  by (cases n) auto

lemma to_be_bytes_eq_Nil_iff [simp]: "to_be_bytes n w = [] \<longleftrightarrow> n = 0"
  by (simp add: to_be_bytes_def)

lemma to_le_bytes_numeral:
  "to_le_bytes (numeral n) w = ucast w # to_le_bytes (pred_numeral n) (drop_bit 8 w)"
  by (simp add: numeral_eq_Suc)

lemma from_to_le_bytes_take_bit:
  "from_le_bytes (to_le_bytes n w) = take_bit (8 * n) (w :: 'a::len word)"
proof (induction n arbitrary: w)
  case 0
  show ?case by simp
next
  case (Suc n)
  have "or (ucast (ucast w :: 8 word)) (push_bit 8 (take_bit (8 * n) (drop_bit 8 w)))
      = take_bit (8 * Suc n) w"
    by (rule bit_word_eqI)
      (auto simp: bit_simps not_less le_less_trans dest: bit_imp_le_length)
  with Suc show ?case by simp
qed

lemma from_to_le_bytes:
  "LENGTH('a) \<le> 8 * n \<Longrightarrow> from_le_bytes (to_le_bytes n w) = (w :: 'a::len word)"
  by (simp add: from_to_le_bytes_take_bit take_bit_word_eq_self)

lemma bit_from_le_bytes:
  "bit (from_le_bytes bs :: 'a::len word) i
     \<longleftrightarrow> i < LENGTH('a) \<and> i div 8 < length bs \<and> bit (bs ! (i div 8)) (i mod 8)"
proof (induction bs arbitrary: i)
  case Nil
  show ?case by simp
next
  case (Cons b bs)
  show ?case
  proof (cases "i < 8")
    case True
    then show ?thesis by (auto simp: bit_simps)
  next
    case False
    then obtain j where j: "i = j + 8" by (metis add.commute le_Suc_ex not_less)
    have "\<not> bit b i" using False by (auto dest: bit_imp_le_length)
    moreover have "(j + 8) div 8 = Suc (j div 8)" by simp
    ultimately show ?thesis using j by (auto simp: bit_simps Cons.IH)
  qed
qed

lemma nth_to_le_bytes: "i < n \<Longrightarrow> to_le_bytes n w ! i = ucast (drop_bit (8 * i) w)"
proof (induction n arbitrary: w i)
  case 0
  then show ?case by simp
next
  case (Suc n)
  then show ?case by (cases i) (simp_all add: algebra_simps)
qed

lemma to_from_le_bytes:
  assumes "8 * length bs \<le> LENGTH('a)"
  shows "to_le_bytes (length bs) (from_le_bytes bs :: 'a::len word) = bs"
proof (rule nth_equalityI)
  fix i assume "i < length (to_le_bytes (length bs) (from_le_bytes bs :: 'a word))"
  then have i: "i < length bs" by simp
  have "bit (ucast (drop_bit (8 * i) (from_le_bytes bs :: 'a word)) :: u8) j \<longleftrightarrow> bit (bs ! i) j"
    if "j < 8" for j
  proof -
    have "8 * i + j < LENGTH('a)" using i that assms by linarith
    moreover have "(8 * i + j) div 8 = i" "(8 * i + j) mod 8 = j" using that by auto
    ultimately show ?thesis using i that by (simp add: bit_simps bit_from_le_bytes)
  qed
  then have "ucast (drop_bit (8 * i) (from_le_bytes bs :: 'a word)) = bs ! i"
    by (intro bit_word_eqI) simp
  with i show "to_le_bytes (length bs) (from_le_bytes bs :: 'a word) ! i = bs ! i"
    by (simp add: nth_to_le_bytes)
qed simp

lemma from_le_bytes_inj:
  assumes "from_le_bytes bs = (from_le_bytes cs :: 'a::len word)"
    and "length bs = length cs" and "8 * length bs \<le> LENGTH('a)"
  shows "bs = cs"
  using assms by (metis to_from_le_bytes)

lemma from_to_be_bytes:
  "LENGTH('a) \<le> 8 * n \<Longrightarrow> from_be_bytes (to_be_bytes n w) = (w :: 'a::len word)"
  by (simp add: to_be_bytes_def from_be_bytes_def from_to_le_bytes)

lemma to_from_be_bytes:
  assumes "8 * length bs \<le> LENGTH('a)"
  shows "to_be_bytes (length bs) (from_be_bytes bs :: 'a::len word) = bs"
  using to_from_le_bytes [of "rev bs", where 'a = 'a] assms
  by (simp add: to_be_bytes_def from_be_bytes_def)

text \<open>The casts \<open>len as u16\<close> and \<open>len as u32\<close> keep the value when it fits.\<close>

lemma unat_of_nat_u16: "n < 2 ^ 16 \<Longrightarrow> unat (of_nat n :: u16) = n"
  by (simp add: unat_of_nat take_bit_nat_eq_self)

lemma unat_of_nat_u32: "n < 2 ^ 32 \<Longrightarrow> unat (of_nat n :: u32) = n"
  by (simp add: unat_of_nat take_bit_nat_eq_self)

lemma unat_of_nat_u64: "n < 2 ^ 64 \<Longrightarrow> unat (of_nat n :: u64) = n"
  by (simp add: unat_of_nat take_bit_nat_eq_self)

text \<open>Enumerating the words of a small range.\<close>

lemma word_in_range: "m \<le> unat b \<Longrightarrow> unat b < n \<Longrightarrow> b \<in> of_nat ` set [m..<n]"
  by (rule image_eqI [of _ _ "unat b"]) auto

section \<open>Overwriting a region\<close>

text \<open>
  \<open>splice off data xs\<close> is \<open>xs[off..off + data.len()].copy_from_slice(data)\<close>; when the region
  runs past the end, the result grows as a file does, and \<open>zero_extend\<close> supplies the zeros
  a write beyond the end leaves in the gap.
\<close>

definition splice :: "nat \<Rightarrow> bytes \<Rightarrow> bytes \<Rightarrow> bytes" where
  "splice off data xs = take off xs @ data @ drop (off + length data) xs"

definition zero_extend :: "nat \<Rightarrow> bytes \<Rightarrow> bytes" where
  "zero_extend n xs = xs @ replicate (n - length xs) 0"

lemma append_eq_long:
  assumes "xs @ ys = us @ vs" and "length xs \<le> length us"
  shows "take (length xs) us = xs" and "ys = drop (length xs) us @ vs"
  using assms by (auto simp: append_eq_append_conv2)

lemma splice_mid:
  "off = length pre \<Longrightarrow> length data = length mid \<Longrightarrow>
   splice off data (pre @ mid @ post) = pre @ data @ post"
  by (simp add: splice_def)

lemma splice_end: "off = length xs \<Longrightarrow> splice off data xs = xs @ data"
  by (simp add: splice_def)

lemma length_splice: "off + length data \<le> length xs \<Longrightarrow> length (splice off data xs) = length xs"
  by (simp add: splice_def)

lemma zero_extend_id [simp]: "n \<le> length xs \<Longrightarrow> zero_extend n xs = xs"
  by (simp add: zero_extend_def)

end
