(* ===== verification/Errors.thy ===== *)
theory Errors
  imports Prelude
begin

text \<open>
  \<^verbatim>\<open>src/error.rs\<close>: the crate's error type with its two classifiers and the text that
  \<open>thiserror\<close> derives from the \<open>#[error("...")]\<close> attributes, and the outcome type of the
  fallible operations. An operation of the code ends in one of three ways: it returns
  \<open>Ok\<close>, it returns \<open>Err\<close>, or it panics (an index or slice out of range). The panic is a
  failure of its own, so that no theorem can take one for a reported error.
\<close>

section \<open>I/O errors of the standard library\<close>

datatype io_kind = UnexpectedEof | Interrupted | TimedOut | ConnectionReset | OtherKind

record io_error =
  io_kind :: io_kind
  io_msg :: rstring

text \<open>\<open>std::io::Error::other(text)\<close>, and the error of \<open>read_exact\<close> at the end of its input.\<close>

definition io_other :: "rstring \<Rightarrow> io_error" where
  "io_other text = \<lparr>io_kind = OtherKind, io_msg = text\<rparr>"

definition eof_error :: io_error where
  "eof_error = \<lparr>io_kind = UnexpectedEof, io_msg = ascii ''failed to fill whole buffer''\<rparr>"

section \<open>The error type\<close>

datatype PeachDbError =
    Io io_error
  | InvalidMagicBytes
  | InvalidIndexEntry
  | UnknownDtype u8
  | CorruptedRecord rstring
  | InvalidFinishCall
  | BufferTooShort
  | EmptyBuffer
  | IncompleteEntry rstring
  | ReplayFailed rstring
  | UnknownCommand u8
  | InvalidRequestFormat rstring
  | PayloadTooLarge nat nat
  | DBNameToLong
  | KeyNotFound
  | TypeMismatch rstring rstring rstring
  | InvalidWalEntry

definition is_retryable :: "PeachDbError \<Rightarrow> bool" where
  "is_retryable err =
     (case err of Io e \<Rightarrow> io_kind e = Interrupted \<or> io_kind e = TimedOut | _ \<Rightarrow> False)"

definition is_protocol_error :: "PeachDbError \<Rightarrow> bool" where
  "is_protocol_error err =
     (case err of
        UnknownCommand _ \<Rightarrow> True
      | InvalidRequestFormat _ \<Rightarrow> True
      | PayloadTooLarge _ _ \<Rightarrow> True
      | UnknownDtype _ \<Rightarrow> True
      | _ \<Rightarrow> False)"

section \<open>The text of an error\<close>

text \<open>\<open>{}\<close> of a \<open>usize\<close> in decimal and \<open>{:#x}\<close> of a byte in hexadecimal.\<close>

fun fmt_dec :: "nat \<Rightarrow> rstring" where
  "fmt_dec n = (if n < 10 then [of_nat (48 + n)] else fmt_dec (n div 10) @ [of_nat (48 + n mod 10)])"

declare fmt_dec.simps [simp del]

definition hex_digit :: "nat \<Rightarrow> u8" where
  "hex_digit d = (if d < 10 then of_nat (48 + d) else of_nat (87 + d))"

definition fmt_hex :: "u8 \<Rightarrow> rstring" where
  "fmt_hex b = ascii ''0x'' @
     (if unat b < 16 then [hex_digit (unat b)]
      else [hex_digit (unat b div 16), hex_digit (unat b mod 16)])"

definition error_to_string :: "PeachDbError \<Rightarrow> rstring" where
  "error_to_string err =
     (case err of
        Io e \<Rightarrow> ascii ''I/O error: '' @ io_msg e
      | InvalidMagicBytes \<Rightarrow> ascii ''invalid magic bytes''
      | InvalidIndexEntry \<Rightarrow> ascii ''invalid index entry''
      | UnknownDtype b \<Rightarrow> ascii ''unknown data type byte: '' @ fmt_hex b
      | CorruptedRecord r \<Rightarrow> ascii ''corrupted record: '' @ r
      | InvalidFinishCall \<Rightarrow> ascii ''Invalid finish() call, Called on unfinished object''
      | BufferTooShort \<Rightarrow> ascii ''buffer too short''
      | EmptyBuffer \<Rightarrow> ascii ''Empty Buffer''
      | IncompleteEntry r \<Rightarrow> ascii ''incomplete WAL entry: '' @ r
      | ReplayFailed r \<Rightarrow> ascii ''WAL replay failed: '' @ r
      | UnknownCommand b \<Rightarrow> ascii ''unknown command byte: '' @ fmt_hex b
      | InvalidRequestFormat r \<Rightarrow> ascii ''invalid request format: '' @ r
      | PayloadTooLarge n m \<Rightarrow> ascii ''payload too large: '' @ fmt_dec n
          @ ascii '' bytes exceeds maximum '' @ fmt_dec m @ ascii '' bytes''
      | DBNameToLong \<Rightarrow> ascii ''DataBase Name to long; must be less than 64 Bytes''
      | KeyNotFound \<Rightarrow> ascii ''key not found''
      | TypeMismatch k ex fo \<Rightarrow> ascii ''type mismatch for key '' @ [39] @ k @ [39]
          @ ascii '': expected '' @ ex @ ascii '', found '' @ fo
      | InvalidWalEntry \<Rightarrow> ascii ''invalid WAL entry'')"

section \<open>Outcomes\<close>

datatype failure = Err PeachDbError | Panic

type_synonym 'a PDBResult = "failure + 'a"

text \<open>\<open>From<std::io::Error>\<close>, which \<open>?\<close> applies to the result of an I/O call.\<close>

definition from_io :: "io_error + 'a \<Rightarrow> 'a PDBResult" where
  "from_io m = map_err (\<lambda>e. Err (Io e)) m"

lemma from_io_simps [simp]:
  "from_io (Inl e) = Inl (Err (Io e))"
  "from_io (Inr x) = Inr x"
  by (simp_all add: from_io_def)

lemma is_retryable_other [simp]: "\<not> is_retryable (Io (io_other text))"
  by (simp add: is_retryable_def io_other_def)

lemma eof_not_retryable [simp]: "\<not> is_retryable (Io eof_error)"
  by (simp add: is_retryable_def eof_error_def)

lemma retryable_not_protocol: "is_retryable err \<Longrightarrow> \<not> is_protocol_error err"
  by (cases err) (simp_all add: is_retryable_def is_protocol_error_def)

end
