(* ===== verification/Utf8.thy ===== *)
theory Utf8
  imports Errors
begin

text \<open>
  What the code uses of the standard library's UTF-8 support: \<open>String::from_utf8\<close>, which
  accepts exactly the well-formed byte sequences and otherwise reports where the first
  ill-formed one begins, \<open>String::from_utf8_lossy\<close>, which replaces each maximal ill-formed
  part by U+FFFD, and \<open>trim_matches\<close> of the NUL character. \<open>utf8_char\<close> reads one character
  off a non-empty input: whether it is well formed, and how many bytes it takes.
\<close>

section \<open>One character\<close>

definition is_cont :: "u8 \<Rightarrow> bool" where
  "is_cont b = (128 \<le> b \<and> b < 192)"

definition safe_get :: "bytes \<Rightarrow> nat \<Rightarrow> u8" where
  "safe_get bs i = (if i < length bs then bs ! i else 0)"

text \<open>The second byte of three- and four-byte characters has a narrower range for some leads.\<close>

definition second_of_three :: "u8 \<Rightarrow> u8 \<Rightarrow> bool" where
  "second_of_three b c =
     (if b = 0xE0 then 0xA0 \<le> c \<and> c \<le> 0xBF else if b = 0xED then 0x80 \<le> c \<and> c \<le> 0x9F
      else is_cont c)"

definition second_of_four :: "u8 \<Rightarrow> u8 \<Rightarrow> bool" where
  "second_of_four b c =
     (if b = 0xF0 then 0x90 \<le> c \<and> c \<le> 0xBF else if b = 0xF4 then 0x80 \<le> c \<and> c \<le> 0x8F
      else is_cont c)"

definition utf8_char :: "u8 \<Rightarrow> bytes \<Rightarrow> bool \<times> nat" where
  "utf8_char b bs =
     (if b < 0x80 then (True, 1)
      else if 0xC2 \<le> b \<and> b \<le> 0xDF then
        (if is_cont (safe_get bs 0) then (True, 2) else (False, 1))
      else if 0xE0 \<le> b \<and> b \<le> 0xEF then
        (if \<not> second_of_three b (safe_get bs 0) then (False, 1)
         else if is_cont (safe_get bs 1) then (True, 3) else (False, 2))
      else if 0xF0 \<le> b \<and> b \<le> 0xF4 then
        (if \<not> second_of_four b (safe_get bs 0) then (False, 1)
         else if \<not> is_cont (safe_get bs 1) then (False, 2)
         else if is_cont (safe_get bs 2) then (True, 4) else (False, 3))
      else (False, 1))"

lemma zero_not_cont [simp]: "\<not> is_cont 0"
  by (simp add: is_cont_def)

lemma zero_not_second [simp]: "\<not> second_of_three b 0" "\<not> second_of_four b 0"
  by (simp_all add: second_of_three_def second_of_four_def)

text \<open>A well-formed character lies within the input, and does not depend on what follows it.\<close>

lemma safe_get_in_range:
  "is_cont (safe_get bs i) \<Longrightarrow> i < length bs"
  "second_of_three b (safe_get bs i) \<Longrightarrow> i < length bs"
  "second_of_four b (safe_get bs i) \<Longrightarrow> i < length bs"
  by (auto simp: safe_get_def split: if_splits)

lemma safe_get_append:
  "is_cont (safe_get bs i) \<Longrightarrow> is_cont (safe_get (bs @ cs) i)"
  "second_of_three b (safe_get bs i) \<Longrightarrow> second_of_three b (safe_get (bs @ cs) i)"
  "second_of_four b (safe_get bs i) \<Longrightarrow> second_of_four b (safe_get (bs @ cs) i)"
  by (auto simp: safe_get_def nth_append split: if_split_asm)

lemma utf8_char_True_cases:
  assumes "utf8_char b bs = (True, n)"
  shows "n = 1 \<and> b < 0x80
    \<or> n = 2 \<and> 0 < length bs
    \<or> n = 3 \<and> 1 < length bs
    \<or> n = 4 \<and> 2 < length bs"
  using assms unfolding utf8_char_def
  by (auto split: if_split_asm dest: safe_get_in_range)

lemma utf8_char_bound: "utf8_char b bs = (True, n) \<Longrightarrow> 1 \<le> n \<and> n - 1 \<le> length bs"
  by (drule utf8_char_True_cases) (auto simp: Suc_le_eq)

lemma utf8_char_append:
  assumes "utf8_char b bs = (True, n)"
  shows "utf8_char b (bs @ cs) = (True, n)"
  using assms unfolding utf8_char_def
  by (simp split: if_split_asm add: safe_get_append) (auto simp: safe_get_append)

lemma utf8_char_ascii: "b < 0x80 \<Longrightarrow> utf8_char b bs = (True, 1)"
  by (simp add: utf8_char_def)

section \<open>Validation\<close>

text \<open>
  \<open>utf8_error pos bs\<close> is the error of validating \<open>bs\<close>, which starts at index \<open>pos\<close> of the
  whole input: the index of the ill-formed part and its length, or no length when the input
  ends inside a character.
\<close>

function utf8_error :: "nat \<Rightarrow> bytes \<Rightarrow> (nat \<times> nat option) option" where
  "utf8_error pos [] = None"
| "utf8_error pos (b # bs) =
     (case utf8_char b bs of (ok, n) \<Rightarrow>
        if ok then utf8_error (pos + n) (drop (n - 1) bs)
        else if 0xC2 \<le> b \<and> b \<le> 0xF4 \<and> length bs < n then Some (pos, None)
        else Some (pos, Some n))"
  by pat_completeness auto
termination
  by (relation "measure (\<lambda>(pos, bs). length bs)") auto

definition utf8_valid :: "bytes \<Rightarrow> bool" where
  "utf8_valid bs = (utf8_error 0 bs = None)"

lemma utf8_error_None_pos: "(utf8_error p bs = None) = (utf8_error q bs = None)"
proof (induction p bs arbitrary: q rule: utf8_error.induct)
  case (1 pos)
  show ?case by simp
next
  case (2 pos b bs)
  obtain ok n where c: "utf8_char b bs = (ok, n)" by (cases "utf8_char b bs")
  show ?case using 2 [OF c [symmetric]] by (cases ok) (simp_all add: c)
qed

lemma utf8_valid_Nil [simp]: "utf8_valid []"
  by (simp add: utf8_valid_def)

lemma utf8_valid_Cons:
  "utf8_valid (b # bs) \<longleftrightarrow> fst (utf8_char b bs) \<and> utf8_valid (drop (snd (utf8_char b bs) - 1) bs)"
  using utf8_error_None_pos [of "snd (utf8_char b bs)" "drop (snd (utf8_char b bs) - 1) bs" 0]
  by (cases "utf8_char b bs") (simp add: utf8_valid_def)

lemma utf8_valid_append: "utf8_valid xs \<Longrightarrow> utf8_valid (xs @ ys) \<longleftrightarrow> utf8_valid ys"
proof (induction xs rule: length_induct)
  case (1 xs)
  show ?case
  proof (cases xs)
    case Nil
    then show ?thesis by simp
  next
    case (Cons b bs)
    obtain n where c: "utf8_char b bs = (True, n)" and v: "utf8_valid (drop (n - 1) bs)"
      using 1(2) Cons by (cases "utf8_char b bs") (auto simp: utf8_valid_Cons)
    have "n - 1 \<le> length bs" using utf8_char_bound [OF c] by blast
    then have d: "drop (n - 1) (bs @ ys) = drop (n - 1) bs @ ys" by simp
    have "length (drop (n - 1) bs) < length xs" by (simp add: Cons)
    with 1(1) v have "utf8_valid (drop (n - 1) bs @ ys) \<longleftrightarrow> utf8_valid ys" by blast
    with utf8_char_append [OF c, of ys] d show ?thesis by (simp add: Cons utf8_valid_Cons)
  qed
qed

lemma utf8_valid_ascii_list: "\<forall>b \<in> set bs. b < 0x80 \<Longrightarrow> utf8_valid bs"
  by (induction bs) (simp_all add: utf8_valid_Cons utf8_char_ascii)

text \<open>The text of a \<open>Utf8Error\<close>, which the code puts into its own errors.\<close>

definition utf8_error_text :: "bytes \<Rightarrow> rstring" where
  "utf8_error_text bs =
     (case utf8_error 0 bs of
        None \<Rightarrow> []
      | Some (p, Some n) \<Rightarrow>
          ascii ''invalid utf-8 sequence of '' @ fmt_dec n @ ascii '' bytes from index '' @ fmt_dec p
      | Some (p, None) \<Rightarrow> ascii ''incomplete utf-8 byte sequence from index '' @ fmt_dec p)"

text \<open>\<open>String::from_utf8\<close>: the string, or the text of its error.\<close>

definition from_utf8 :: "bytes \<Rightarrow> rstring + rstring" where
  "from_utf8 bs = (if utf8_valid bs then Inr bs else Inl (utf8_error_text bs))"

lemma from_utf8_valid [simp]: "utf8_valid bs \<Longrightarrow> from_utf8 bs = Inr bs"
  by (simp add: from_utf8_def)

section \<open>Lossy conversion and trimming\<close>

function from_utf8_lossy :: "bytes \<Rightarrow> rstring" where
  "from_utf8_lossy [] = []"
| "from_utf8_lossy (b # bs) =
     (case utf8_char b bs of (ok, n) \<Rightarrow>
        (if ok then take n (b # bs) else [0xEF, 0xBF, 0xBD]) @ from_utf8_lossy (drop (n - 1) bs))"
  by pat_completeness auto
termination
  by (relation "measure length") auto

lemma from_utf8_lossy_valid: "utf8_valid bs \<Longrightarrow> from_utf8_lossy bs = bs"
proof (induction bs rule: from_utf8_lossy.induct)
  case 1
  show ?case by simp
next
  case (2 b bs)
  obtain n where c: "utf8_char b bs = (True, n)" and v: "utf8_valid (drop (n - 1) bs)"
    using 2(2) by (cases "utf8_char b bs") (auto simp: utf8_valid_Cons)
  obtain m where m: "n = Suc m" using utf8_char_bound [OF c] by (cases n) auto
  from 2(1) [OF c [symmetric] v] show ?case by (simp add: c m)
qed

definition trim_nul :: "rstring \<Rightarrow> rstring" where
  "trim_nul s = rev (dropWhile (\<lambda>b. b = 0) (rev (dropWhile (\<lambda>b. b = 0) s)))"

lemma dropWhile_replicate_append:
  "P x \<Longrightarrow> dropWhile P (replicate n x @ ys) = dropWhile P ys"
  by (induction n) auto

lemma trim_nul_padded:
  assumes "s \<noteq> [] \<Longrightarrow> hd s \<noteq> 0 \<and> last s \<noteq> 0"
  shows "trim_nul (s @ replicate n 0) = s"
proof (cases s)
  case Nil
  then show ?thesis
    using dropWhile_replicate_append [of "\<lambda>b. b = 0" "0 :: u8" n "[]"] by (simp add: trim_nul_def)
next
  case (Cons b bs)
  have "dropWhile (\<lambda>b. b = 0) (rev s) = rev s"
    using assms Cons by (cases "rev s") (auto simp: hd_rev [symmetric])
  moreover have "dropWhile (\<lambda>b. b = 0) (s @ replicate n 0) = s @ replicate n 0"
    using assms Cons by simp
  ultimately show ?thesis
    by (simp add: trim_nul_def dropWhile_replicate_append)
qed

end
