(* ===== verification/Dtypes.thy ===== *)
theory Dtypes
  imports Utf8
begin

text \<open>
  \<^verbatim>\<open>src/dtypes.rs\<close>: the data types, keys and field values, and their byte encodings
  \<open>bytes_from_field\<close> and \<open>field_from_bytes\<close>, on which the record, log and wire formats are
  built. The constructors keep the source's names, so those shared by several enums are
  written qualified (\<open>Dtype.Array\<close>, \<open>Field.Array\<close>). An \<open>f64\<close> is its bit pattern, which is
  all that \<open>to_le_bytes\<close> and \<open>from_le_bytes\<close> touch. Slices and indexing that Rust would
  reject with a panic are the outcome \<open>Panic\<close>.
\<close>

section \<open>Data types and their tag bytes\<close>

datatype Dtype = Raw | Integer | Float | String | Boolean | Array u8

definition KEY_LEN_BYTE_SIZE :: nat where "KEY_LEN_BYTE_SIZE = 2"
definition FIELD_LEN_BYTE_SIZE :: nat where "FIELD_LEN_BYTE_SIZE = 4"

fun Dtype_as_byte :: "Dtype \<Rightarrow> u8" where
  "Dtype_as_byte Dtype.Raw = 0x0"
| "Dtype_as_byte Dtype.Integer = 0x1"
| "Dtype_as_byte Dtype.Float = 0x2"
| "Dtype_as_byte Dtype.String = 0x3"
| "Dtype_as_byte Dtype.Boolean = 0x4"
| "Dtype_as_byte (Dtype.Array t) = or 0x10 t"

text \<open>The last range of the source, \<open>0x10..0x1F\<close>, excludes its end.\<close>

definition Dtype_try_from :: "u8 \<Rightarrow> Dtype PDBResult" where
  "Dtype_try_from b =
     (if b = 0x00 then Inr Dtype.Raw
      else if b = 0x01 then Inr Dtype.Integer
      else if b = 0x02 then Inr Dtype.Float
      else if b = 0x03 then Inr Dtype.String
      else if b = 0x04 then Inr Dtype.Boolean
      else if 0x10 \<le> b \<and> b < 0x1F then Inr (Dtype.Array (and b 0x0F))
      else Inl (Err (UnknownDtype b)))"

section \<open>Keys\<close>

datatype Key = Key (Key_as_bytes: bytes)

definition Key_empty :: Key where "Key_empty = Key []"
definition Key_len :: "Key \<Rightarrow> nat" where "Key_len k = length (Key_as_bytes k)"
definition Key_is_empty :: "Key \<Rightarrow> bool" where "Key_is_empty k = (Key_as_bytes k = [])"
definition Key_size :: "Key \<Rightarrow> nat" where
  "Key_size k = KEY_LEN_BYTE_SIZE + length (Key_as_bytes k)"

text \<open>\<open>Display\<close>: the key as text when it is UTF-8, else the \<open>{:?}\<close> form of its byte vector.\<close>

fun fmt_byte_items :: "bytes \<Rightarrow> rstring" where
  "fmt_byte_items [] = []"
| "fmt_byte_items [b] = fmt_dec (unat b)"
| "fmt_byte_items (b # c # bs) = fmt_dec (unat b) @ ascii '', '' @ fmt_byte_items (c # bs)"

definition Key_to_string :: "Key \<Rightarrow> rstring" where
  "Key_to_string k =
     (case from_utf8 (Key_as_bytes k) of
        Inr s \<Rightarrow> s
      | Inl _ \<Rightarrow> ascii ''['' @ fmt_byte_items (Key_as_bytes k) @ ascii '']'')"

text \<open>Keys are ordered as their byte strings, which gives hash-map iteration a sorted instance.\<close>

instantiation Key :: linorder
begin

definition less_eq_Key :: "Key \<Rightarrow> Key \<Rightarrow> bool" where
  "less_eq_Key k l = (Key_as_bytes k \<le> Key_as_bytes l)"

definition less_Key :: "Key \<Rightarrow> Key \<Rightarrow> bool" where
  "less_Key k l = (Key_as_bytes k < Key_as_bytes l)"

instance
  by standard
    (auto simp: less_eq_Key_def less_Key_def not_le linear intro: Key.expand)

end

section \<open>Field values\<close>

datatype Primitive = Integer i64 | Float f64_bits | String rstring | Boolean bool

datatype Field = Primitive Primitive | Raw bytes | Array Dtype "Primitive list"

definition Field_zero :: Field where
  "Field_zero = Field.Primitive (Primitive.Integer 0)"

fun Field_len :: "Field \<Rightarrow> nat" where
  "Field_len (Field.Primitive p) = 1"
| "Field_len (Field.Raw bs) = length bs"
| "Field_len (Field.Array dt a) = length a"

definition Field_is_empty :: "Field \<Rightarrow> bool" where
  "Field_is_empty f = (Field_len f = 0)"

fun Primitive_dtype :: "Primitive \<Rightarrow> Dtype" where
  "Primitive_dtype (Primitive.Integer n) = Dtype.Integer"
| "Primitive_dtype (Primitive.Float x) = Dtype.Float"
| "Primitive_dtype (Primitive.String s) = Dtype.String"
| "Primitive_dtype (Primitive.Boolean b) = Dtype.Boolean"

fun Field_dtype :: "Field \<Rightarrow> Dtype" where
  "Field_dtype (Field.Primitive p) = Primitive_dtype p"
| "Field_dtype (Field.Array dt a) = Dtype.Array (Dtype_as_byte dt)"
| "Field_dtype (Field.Raw bs) = Dtype.Raw"

section \<open>Encoding and decoding of values\<close>

fun bytes_from_primitive :: "Primitive \<Rightarrow> bytes" where
  "bytes_from_primitive (Primitive.Integer n) = to_le_bytes 8 n"
| "bytes_from_primitive (Primitive.Float x) = to_le_bytes 8 x"
| "bytes_from_primitive (Primitive.String s) = to_le_bytes 4 (of_nat (length s) :: u32) @ s"
| "bytes_from_primitive (Primitive.Boolean b) = [if b then 1 else 0]"

fun primitive_from_bytes :: "Dtype \<Rightarrow> bytes \<Rightarrow> (Primitive \<times> nat) PDBResult" where
  "primitive_from_bytes Dtype.Integer buf =
     (if length buf < 8 then Inl (Err BufferTooShort)
      else Inr (Primitive.Integer (from_le_bytes (take 8 buf)), 8))"
| "primitive_from_bytes Dtype.Float buf =
     (if length buf < 8 then Inl (Err BufferTooShort)
      else Inr (Primitive.Float (from_le_bytes (take 8 buf)), 8))"
| "primitive_from_bytes Dtype.Boolean buf =
     (case buf of [] \<Rightarrow> Inl Panic | b # _ \<Rightarrow> Inr (Primitive.Boolean (b \<noteq> 0), 1))"
| "primitive_from_bytes Dtype.String buf =
     (if length buf < 4 then Inl (Err BufferTooShort)
      else
        let len = unat (from_le_bytes (take 4 buf) :: u32) in
        if length buf < 4 + len then Inl Panic
        else
          case from_utf8 (take len (drop 4 buf)) of
            Inl e \<Rightarrow> Inl (Err (CorruptedRecord (ascii ''invalid utf8: '' @ e)))
          | Inr s \<Rightarrow> Inr (Primitive.String s, FIELD_LEN_BYTE_SIZE + len))"
| "primitive_from_bytes Dtype.Raw buf = Inl (Err (UnknownDtype (Dtype_as_byte Dtype.Raw)))"
| "primitive_from_bytes (Dtype.Array t) buf =
     Inl (Err (UnknownDtype (Dtype_as_byte (Dtype.Array t))))"

fun bytes_from_field :: "Field \<Rightarrow> bytes" where
  "bytes_from_field (Field.Primitive p) =
     Dtype_as_byte (Field_dtype (Field.Primitive p)) # bytes_from_primitive p"
| "bytes_from_field (Field.Raw bs) = Dtype_as_byte (Field_dtype (Field.Raw bs)) # bs"
| "bytes_from_field (Field.Array dt a) =
     Dtype_as_byte (Dtype.Array (Dtype_as_byte dt))
       # to_le_bytes 4 (of_nat (length a) :: u32) @ concat (map bytes_from_primitive a)"

text \<open>The \<open>for _ in 0..count\<close> loop over the elements of an array.\<close>

fun array_items_from_bytes ::
    "Dtype \<Rightarrow> nat \<Rightarrow> bytes \<Rightarrow> nat \<Rightarrow> Primitive list \<Rightarrow> (Primitive list \<times> nat) PDBResult" where
  "array_items_from_bytes inner_dt 0 payload offset v = Inr (v, offset)"
| "array_items_from_bytes inner_dt (Suc n) payload offset v =
     (if length payload < offset then Inl Panic
      else and_then (primitive_from_bytes inner_dt (drop offset payload)) (\<lambda>(p, consumed).
        array_items_from_bytes inner_dt n payload (offset + consumed) (v @ [p])))"

definition field_from_bytes :: "bytes \<Rightarrow> (Field \<times> nat) PDBResult" where
  "field_from_bytes buf =
     (case buf of
        [] \<Rightarrow> Inl (Err BufferTooShort)
      | b # payload \<Rightarrow> and_then (Dtype_try_from b) (\<lambda>dtype.
          case dtype of
            Dtype.Raw \<Rightarrow> Inr (Field.Raw payload, 1 + length payload)
          | Dtype.Array inner \<Rightarrow>
              (if length payload < 4 then Inl (Err BufferTooShort)
               else
                 let count = unat (from_le_bytes (take 4 payload) :: u32) in
                 and_then (Dtype_try_from inner) (\<lambda>inner_dt.
                 and_then (array_items_from_bytes inner_dt count payload 4 []) (\<lambda>(v, offset).
                 Inr (Field.Array inner_dt v, 1 + offset))))
          | _ \<Rightarrow> and_then (primitive_from_bytes dtype payload) (\<lambda>(p, c).
              Inr (Field.Primitive p, 1 + c))))"

section \<open>Well-formed values\<close>

text \<open>
  The values the format can represent: strings are UTF-8 (every Rust \<open>String\<close> is) and shorter
  than \<open>2 ^ 32\<close> bytes, and an array's elements all have its declared, non-array type. The
  type \<open>Field\<close> does not enforce the last point; decoding never violates it.
\<close>

fun wf_primitive :: "Primitive \<Rightarrow> bool" where
  "wf_primitive (Primitive.String s) = (utf8_valid s \<and> length s < 2 ^ 32)"
| "wf_primitive _ = True"

fun wf_field :: "Field \<Rightarrow> bool" where
  "wf_field (Field.Primitive p) = wf_primitive p"
| "wf_field (Field.Raw bs) = True"
| "wf_field (Field.Array dt a) =
     ((\<forall>t. dt \<noteq> Dtype.Array t) \<and> length a < 2 ^ 32
      \<and> (\<forall>p \<in> set a. Primitive_dtype p = dt \<and> wf_primitive p))"

section \<open>Tag bytes\<close>

lemma Dtype_tag_range:
  "0x10 \<le> or 0x10 t \<and> or 0x10 t < 0x1F \<and> and (or 0x10 t) 0x0F = t \<longleftrightarrow> t < (0x0F :: u8)"
proof (cases "t < 0x10")
  case True
  then have "t \<in> of_nat ` set [0..<16]"
    by (intro word_in_range) (simp_all add: word_less_nat_alt)
  then show ?thesis by (simp add: upt_rec) auto
next
  case False
  have "and (or 0x10 t) 0x0F \<le> 0x0F" by (rule word_and_le1)
  with False show ?thesis by (auto simp: not_less word_le_nat_alt word_less_nat_alt)
qed

lemma Dtype_try_from_as_byte:
  "Dtype_try_from (Dtype_as_byte dt) = Inr dt \<longleftrightarrow> (\<forall>t. dt = Dtype.Array t \<longrightarrow> t < 0x0F)"
proof (cases dt)
  case (Array t)
  have "or 0x10 t \<noteq> 0" "or 0x10 t \<noteq> 1" "or 0x10 t \<noteq> 2" "or 0x10 t \<noteq> 3" "or 0x10 t \<noteq> 4"
    by (auto dest!: arg_cong [of _ _ "\<lambda>w. bit w 4"] simp: bit_simps)
  with Dtype_tag_range [of t] show ?thesis by (auto simp: Array Dtype_try_from_def)
qed (simp_all add: Dtype_try_from_def)

lemma as_byte_Dtype_try_from: "Dtype_try_from b = Inr dt \<Longrightarrow> Dtype_as_byte dt = b"
proof -
  have "or 0x10 (and b 0x0F) = b" if "0x10 \<le> b" "b < 0x1F"
  proof -
    have "b \<in> of_nat ` set [16..<31]"
      using that by (intro word_in_range) (simp_all add: word_less_nat_alt word_le_nat_alt)
    then show ?thesis by (simp add: upt_rec) auto
  qed
  then show "Dtype_try_from b = Inr dt \<Longrightarrow> Dtype_as_byte dt = b"
    by (auto simp: Dtype_try_from_def split: if_split_asm)
qed

section \<open>Round trips\<close>

lemma primitive_roundtrip:
  "wf_primitive p \<Longrightarrow> primitive_from_bytes (Primitive_dtype p) (bytes_from_primitive p @ rest)
     = Inr (p, length (bytes_from_primitive p))"
  by (cases p) (simp_all add: from_to_le_bytes unat_of_nat_u32 FIELD_LEN_BYTE_SIZE_def Let_def)

lemma array_items_roundtrip:
  assumes "\<forall>p \<in> set ps. Primitive_dtype p = dt \<and> wf_primitive p"
  shows "array_items_from_bytes dt (length ps) (pre @ concat (map bytes_from_primitive ps) @ rest)
     (length pre) v = Inr (v @ ps, length pre + length (concat (map bytes_from_primitive ps)))"
  using assms
proof (induction ps arbitrary: pre v)
  case Nil
  show ?case by simp
next
  case (Cons p ps)
  then have p: "primitive_from_bytes dt (bytes_from_primitive p @ concat (map bytes_from_primitive ps) @ rest)
      = Inr (p, length (bytes_from_primitive p))"
    using primitive_roundtrip by auto
  from Cons.IH [of "pre @ bytes_from_primitive p" "v @ [p]"] Cons.prems p
  show ?case by (simp add: add.assoc)
qed

lemma Dtype_try_from_prim_tag [simp]:
  "Dtype_try_from (Dtype_as_byte (Primitive_dtype p)) = Inr (Primitive_dtype p)"
  by (simp add: Dtype_try_from_as_byte) (cases p; simp)

lemma Primitive_dtype_cases:
  "Primitive_dtype p \<in> {Dtype.Integer, Dtype.Float, Dtype.String, Dtype.Boolean}"
  by (cases p) simp_all

lemma field_roundtrip_append:
  assumes "wf_field f" and "Field_dtype f \<noteq> Dtype.Raw \<or> rest = []"
  shows "field_from_bytes (bytes_from_field f @ rest) = Inr (f, length (bytes_from_field f))"
proof (cases f)
  case (Primitive p)
  then show ?thesis
    using assms primitive_roundtrip [of p rest] Primitive_dtype_cases [of p]
    by (auto simp: field_from_bytes_def simp del: primitive_from_bytes.simps bytes_from_primitive.simps)
next
  case (Raw bs)
  then show ?thesis using assms by (simp add: field_from_bytes_def Dtype_try_from_def)
next
  case (Array dt a)
  have dt: "\<And>t. dt \<noteq> Dtype.Array t" and len: "length a < 2 ^ 32"
    and el: "\<forall>p \<in> set a. Primitive_dtype p = dt \<and> wf_primitive p"
    using assms(1) by (simp_all add: Array)
  have small: "Dtype_as_byte dt < 0x0F" using dt by (cases dt) auto
  have tag: "Dtype_try_from (or 0x10 (Dtype_as_byte dt)) = Inr (Dtype.Array (Dtype_as_byte dt))"
    using Dtype_try_from_as_byte [of "Dtype.Array (Dtype_as_byte dt)"] small by simp
  have inner: "Dtype_try_from (Dtype_as_byte dt) = Inr dt"
    by (simp add: Dtype_try_from_as_byte dt)
  have items: "array_items_from_bytes dt (length a)
      (to_le_bytes 4 (of_nat (length a) :: u32) @ concat (map bytes_from_primitive a) @ rest) 4 []
      = Inr (a, 4 + length (concat (map bytes_from_primitive a)))"
    using array_items_roundtrip [OF el, of "to_le_bytes 4 (of_nat (length a) :: u32)" rest "[]"] by simp
  show ?thesis
    using tag inner items len
    by (simp add: Array field_from_bytes_def Let_def from_to_le_bytes unat_of_nat_u32)
qed

lemma field_roundtrip:
  "wf_field f \<Longrightarrow> field_from_bytes (bytes_from_field f) = Inr (f, length (bytes_from_field f))"
  using field_roundtrip_append [of f "[]"] by simp

lemma bytes_from_field_inj:
  assumes "wf_field f" and "wf_field g" and "bytes_from_field f = bytes_from_field g"
  shows "f = g"
  using field_roundtrip [OF assms(1)] field_roundtrip [OF assms(2)] unfolding assms(3) by simp

lemma bytes_from_field_not_Nil [simp]: "bytes_from_field f \<noteq> []"
  by (cases f) simp_all

section \<open>Decoded values\<close>

lemma from_utf8_InrD: "from_utf8 bs = Inr s \<Longrightarrow> s = bs \<and> utf8_valid bs"
  by (simp add: from_utf8_def split: if_split_asm)

lemma primitive_from_bytes_wf:
  assumes "primitive_from_bytes dt buf = Inr (p, n)"
  shows "Primitive_dtype p = dt \<and> wf_primitive p \<and> 1 \<le> n \<and> n \<le> length buf"
proof (cases dt)
  case String
  have "unat (from_le_bytes (take 4 buf) :: u32) < 2 ^ 32"
    using unsigned_less [of "from_le_bytes (take 4 buf) :: u32", where 'a = nat] by simp
  with assms show ?thesis
    by (auto simp: String Let_def FIELD_LEN_BYTE_SIZE_def dest!: from_utf8_InrD
        split: if_split_asm sum.split_asm)
next
  case Boolean
  with assms show ?thesis by (auto split: list.split_asm)
qed (use assms in \<open>auto split: if_split_asm\<close>)

lemma array_items_from_bytes_wf:
  assumes "array_items_from_bytes dt n payload offset v = Inr (w, off)"
    and "\<forall>p \<in> set v. Primitive_dtype p = dt \<and> wf_primitive p" and "offset \<le> length payload"
  shows "(\<forall>p \<in> set w. Primitive_dtype p = dt \<and> wf_primitive p)
     \<and> length w = length v + n \<and> off \<le> length payload"
  using assms
proof (induction dt n payload offset v rule: array_items_from_bytes.induct)
  case (1 dt payload offset v)
  then show ?case by simp
next
  case (2 dt n payload offset v)
  then obtain p c where p: "primitive_from_bytes dt (drop offset payload) = Inr (p, c)"
    and rest: "array_items_from_bytes dt n payload (offset + c) (v @ [p]) = Inr (w, off)"
    by (auto simp: seq_iff split: if_split_asm)
  have wf: "Primitive_dtype p = dt \<and> wf_primitive p" "offset + c \<le> length payload"
    using primitive_from_bytes_wf [OF p] 2(4) by auto
  have "\<not> length payload < offset" using 2(4) by simp
  from 2(1) [OF this p refl rest] 2(3) wf show ?case by auto
qed

lemma field_from_bytes_wf:
  assumes "field_from_bytes buf = Inr (f, n)"
  shows "wf_field f \<and> 1 \<le> n \<and> n \<le> length buf"
proof -
  obtain b payload dtype where buf: "buf = b # payload" and dt: "Dtype_try_from b = Inr dtype"
    using assms by (auto simp: field_from_bytes_def seq_iff split: list.split_asm)
  show ?thesis
  proof (cases dtype)
    case Raw
    then show ?thesis using assms dt by (auto simp: field_from_bytes_def buf)
  next
    case (Array inner)
    let ?count = "unat (from_le_bytes (take 4 payload) :: u32)"
    obtain inner_dt v offset where four: "4 \<le> length payload"
      and inner: "Dtype_try_from inner = Inr inner_dt"
      and items: "array_items_from_bytes inner_dt ?count payload 4 [] = Inr (v, offset)"
      and res: "f = Field.Array inner_dt v" "n = 1 + offset"
      using assms dt Array
      by (auto simp: field_from_bytes_def buf seq_iff Let_def split: if_split_asm)
    have "length v < 2 ^ 32" and "\<forall>p \<in> set v. Primitive_dtype p = inner_dt \<and> wf_primitive p"
      and "offset \<le> length payload"
      using array_items_from_bytes_wf [OF items] four
        unsigned_less [of "from_le_bytes (take 4 payload) :: u32", where 'a = nat] by auto
    moreover have "inner \<le> 0x0F"
      using dt Array word_and_le1 [of b "0x0F"] by (auto simp: Dtype_try_from_def split: if_split_asm)
    then have "\<forall>t. inner_dt \<noteq> Dtype.Array t"
      using inner by (auto simp: Dtype_try_from_def word_le_nat_alt split: if_split_asm)
    ultimately show ?thesis using res four by (simp add: buf)
  qed (use assms dt in \<open>auto simp: field_from_bytes_def buf seq_iff
      simp del: primitive_from_bytes.simps dest!: primitive_from_bytes_wf\<close>)
qed

lemma primitive_from_bytes_len:
  "primitive_from_bytes dt buf = Inr (p, n) \<Longrightarrow> n = length (bytes_from_primitive p)"
  by (cases dt) (auto simp: Let_def FIELD_LEN_BYTE_SIZE_def dest!: from_utf8_InrD
      split: if_split_asm sum.split_asm list.split_asm)

lemma array_items_from_bytes_len:
  assumes "array_items_from_bytes dt n payload offset v = Inr (w, off)"
  shows "\<exists>u. w = v @ u \<and> off = offset + length (concat (map bytes_from_primitive u))"
  using assms
proof (induction dt n payload offset v rule: array_items_from_bytes.induct)
  case (1 dt payload offset v)
  then show ?case by simp
next
  case (2 dt n payload offset v)
  then obtain p c where p: "primitive_from_bytes dt (drop offset payload) = Inr (p, c)"
    and rest: "array_items_from_bytes dt n payload (offset + c) (v @ [p]) = Inr (w, off)"
    and short: "\<not> length payload < offset"
    by (auto simp: seq_iff split: if_split_asm)
  from 2(1) [OF short p refl rest] obtain u where
    "w = (v @ [p]) @ u" "off = offset + c + length (concat (map bytes_from_primitive u))" by blast
  then show ?case using primitive_from_bytes_len [OF p] by (intro exI [of _ "p # u"]) simp
qed

text \<open>A decoded value consumed as many bytes as its encoding has.\<close>

lemma field_from_bytes_len:
  assumes "field_from_bytes buf = Inr (f, n)"
  shows "n = length (bytes_from_field f)"
proof -
  obtain b payload dtype where buf: "buf = b # payload" and dt: "Dtype_try_from b = Inr dtype"
    using assms by (auto simp: field_from_bytes_def seq_iff split: list.split_asm)
  show ?thesis
  proof (cases dtype)
    case (Array inner)
    then obtain inner_dt v offset where
      items: "array_items_from_bytes inner_dt (unat (from_le_bytes (take 4 payload) :: u32)) payload 4 []
        = Inr (v, offset)"
      and res: "f = Field.Array inner_dt v" "n = 1 + offset"
      using assms dt
      by (auto simp: field_from_bytes_def buf seq_iff Let_def split: if_split_asm)
    with array_items_from_bytes_len [OF items] show ?thesis by auto
  qed (use assms dt in \<open>auto simp: field_from_bytes_def buf seq_iff
      simp del: primitive_from_bytes.simps bytes_from_primitive.simps
      dest: primitive_from_bytes_len\<close>)
qed

section \<open>What fits the length fields\<close>

text \<open>
  Every format stores the length of a key in 16 bits and that of an encoded field in 32; the
  encoders cast with \<open>as\<close> and do not check.
\<close>

definition storable_key :: "Key \<Rightarrow> bool" where
  "storable_key k = (Key_len k < 2 ^ 16)"

definition storable_field :: "Field \<Rightarrow> bool" where
  "storable_field f = (wf_field f \<and> length (bytes_from_field f) < 2 ^ 32)"

lemma storable_key_len: "storable_key k \<Longrightarrow> unat (of_nat (Key_len k) :: u16) = length (Key_as_bytes k)"
  by (simp add: storable_key_def Key_len_def unat_of_nat_u16)

lemma storable_field_len:
  "storable_field f \<Longrightarrow> unat (of_nat (length (bytes_from_field f)) :: u32) = length (bytes_from_field f)"
  by (simp add: storable_field_def unat_of_nat_u32)

lemma storable_field_roundtrip:
  "storable_field f \<Longrightarrow> field_from_bytes (bytes_from_field f) = Inr (f, length (bytes_from_field f))"
  by (simp add: storable_field_def field_roundtrip)

section \<open>Properties\<close>

text \<open>
  C13. Encoding a well-formed field and decoding it gives the field back and consumes exactly the
  encoding, distinct fields have distinct encodings, and unless the field is raw (raw bytes run
  to the end of the buffer) whatever follows the encoding does not matter.
\<close>

theorem field_encoding_faithful:
  assumes "wf_field f" and "wf_field g"
  shows "field_from_bytes (bytes_from_field f) = Inr (f, length (bytes_from_field f))
    \<and> (bytes_from_field f = bytes_from_field g \<longleftrightarrow> f = g)
    \<and> (Field_dtype f \<noteq> Dtype.Raw \<longrightarrow>
        field_from_bytes (bytes_from_field f @ rest) = Inr (f, length (bytes_from_field f)))"
  using assms field_roundtrip field_roundtrip_append bytes_from_field_inj by blast

theorem field_encoding_faithful_witness:
  "let f = Field.Array Dtype.Integer [Primitive.Integer 7, Primitive.Integer 8];
       g = Field.Raw [0x11]
   in field_from_bytes (bytes_from_field f @ [1, 2, 3]) = Inr (f, length (bytes_from_field f))
    \<and> bytes_from_field f \<noteq> bytes_from_field g"
  using field_encoding_faithful
    [of "Field.Array Dtype.Integer [Primitive.Integer 7, Primitive.Integer 8]"
      "Field.Raw [0x11]" "[1, 2, 3]"]
  by simp

text \<open>
  C14. Whatever bytes \<open>field_from_bytes\<close> accepts, the field it returns is well formed, the number
  of bytes it reports is the length of the field's own encoding and lies within the buffer, and
  encoding the field and decoding it again changes nothing.
\<close>

theorem decoded_field_canonical:
  assumes "field_from_bytes buf = Inr (f, n)"
  shows "wf_field f \<and> n = length (bytes_from_field f) \<and> n \<le> length buf
    \<and> field_from_bytes (bytes_from_field f) = Inr (f, n)"
  using field_from_bytes_wf [OF assms] field_from_bytes_len [OF assms] field_roundtrip [of f] by simp

theorem decoded_field_canonical_witness:
  "wf_field (Field.Primitive (Primitive.Boolean True))
   \<and> field_from_bytes (bytes_from_field (Field.Primitive (Primitive.Boolean True)))
      = Inr (Field.Primitive (Primitive.Boolean True), 2)"
  using decoded_field_canonical [of "[4, 7, 9]" "Field.Primitive (Primitive.Boolean True)" 2]
  by (simp add: field_from_bytes_def Dtype_try_from_def)

text \<open>
  C21. A tag byte decodes to exactly the data type it is the tag of: the code's ranges accept every
  scalar tag and the array tags up to \<open>0x1E\<close>, and nothing else.
\<close>

theorem dtype_tag_exact:
  "Dtype_try_from b = Inr dt \<longleftrightarrow> Dtype_as_byte dt = b \<and> dt \<notin> Dtype.Array ` {t. 0x0F \<le> t}"
proof -
  have "dt \<notin> Dtype.Array ` {t. 0x0F \<le> t} \<longleftrightarrow> (\<forall>t. dt = Dtype.Array t \<longrightarrow> t < 0x0F)"
    by (auto simp: not_le image_iff)
  then show ?thesis using Dtype_try_from_as_byte as_byte_Dtype_try_from by metis
qed

text \<open>
  C22. The decoder of fields does not check two lengths: a string whose declared length exceeds the
  buffer, and a boolean with no payload byte, panic instead of returning \<open>BufferTooShort\<close>.
\<close>

theorem malformed_field_panics:
  assumes "length bs < unat n"
  shows "field_from_bytes (Dtype_as_byte Dtype.String # to_le_bytes 4 (n :: u32) @ bs) = Inl Panic
    \<and> field_from_bytes [Dtype_as_byte Dtype.Boolean] = Inl Panic"
  using assms by (simp add: field_from_bytes_def Dtype_try_from_def from_to_le_bytes Let_def)

theorem malformed_field_panics_witness:
  "field_from_bytes (Dtype_as_byte Dtype.String # to_le_bytes 4 (5 :: u32) @ [65]) = Inl Panic"
  using malformed_field_panics [of "[65]" 5] by simp

end
