(* ===== verification/Hash_Map.thy ===== *)
theory Hash_Map
  imports Dtypes "HOL-Library.Multiset"
begin

text \<open>
  What the code uses of \<open>std::collections::HashMap\<close> with \<^typ>\<open>Key\<close> keys. A map is an
  association list with distinct keys; \<open>insert\<close>, \<open>remove\<close>, \<open>get\<close> and \<open>len\<close> do not depend on
  the order of the list. The order in which \<open>iter\<close>, \<open>keys\<close> and \<open>into_values\<close> visit the
  entries is unspecified in Rust and differs from run to run, so it is an argument: a
  function \<open>ord\<close> that rearranges the list of keys, of which only \<open>hash_order\<close> is assumed.
\<close>

section \<open>Operations\<close>

type_synonym 'v hashmap = "(Key \<times> 'v) list"

definition hm_new :: "'v hashmap" where "hm_new = []"
definition hm_insert :: "Key \<Rightarrow> 'v \<Rightarrow> 'v hashmap \<Rightarrow> 'v hashmap" where "hm_insert = AList.update"
definition hm_remove :: "Key \<Rightarrow> 'v hashmap \<Rightarrow> 'v hashmap" where "hm_remove = AList.delete"
definition hm_get :: "'v hashmap \<Rightarrow> Key \<Rightarrow> 'v option" where "hm_get = map_of"
definition hm_len :: "'v hashmap \<Rightarrow> nat" where "hm_len m = length m"
definition hm_wf :: "'v hashmap \<Rightarrow> bool" where "hm_wf m = distinct (map fst m)"

definition hash_order :: "(Key list \<Rightarrow> Key list) \<Rightarrow> bool" where
  "hash_order ord = (\<forall>ks. mset (ord ks) = mset ks)"

definition hm_keys :: "(Key list \<Rightarrow> Key list) \<Rightarrow> 'v hashmap \<Rightarrow> Key list" where
  "hm_keys ord m = ord (map fst m)"

definition hm_iter :: "(Key list \<Rightarrow> Key list) \<Rightarrow> 'v hashmap \<Rightarrow> (Key \<times> 'v) list" where
  "hm_iter ord m = List.map_filter (\<lambda>k. map_option (Pair k) (map_of m k)) (hm_keys ord m)"

definition hm_into_values :: "(Key list \<Rightarrow> Key list) \<Rightarrow> 'v hashmap \<Rightarrow> 'v list" where
  "hm_into_values ord m = map snd (hm_iter ord m)"

section \<open>The interface its clients rely on\<close>

text \<open>
  A finite map interface. The client lemma is about replaying a log of updates, a value for
  an insertion and \<open>None\<close> for a removal: each key ends with the last update made to it.
\<close>

type_synonym 'v update = "Key \<times> 'v option"

definition last_update :: "'v update list \<Rightarrow> Key \<Rightarrow> 'v option option" where
  "last_update us = map_of (rev us)"

lemma last_update_Nil [simp]: "last_update [] k = None"
  by (simp add: last_update_def)

lemma last_update_append:
  "last_update (us @ vs) k = (case last_update vs k of None \<Rightarrow> last_update us k | Some u \<Rightarrow> Some u)"
  by (simp add: last_update_def map_add_def split: option.split)

lemma last_update_snoc [simp]:
  "last_update (us @ [(l, u)]) k = (if k = l then Some u else last_update us k)"
  by (simp add: last_update_def)

locale finite_map =
  fixes empty :: "'m"
    and insert :: "Key \<Rightarrow> 'v \<Rightarrow> 'm \<Rightarrow> 'm"
    and remove :: "Key \<Rightarrow> 'm \<Rightarrow> 'm"
    and get :: "'m \<Rightarrow> Key \<Rightarrow> 'v option"
    and wf :: "'m \<Rightarrow> bool"
  assumes get_empty: "get empty k = None"
    and get_insert: "get (insert k v m) l = (if l = k then Some v else get m l)"
    and get_remove: "get (remove k m) l = (if l = k then None else get m l)"
    and wf_empty: "wf empty"
    and wf_insert: "wf m \<Longrightarrow> wf (insert k v m)"
    and wf_remove: "wf m \<Longrightarrow> wf (remove k m)"
begin

lemma get_replay:
  assumes "\<And>u m. apply_u u m = (case snd u of Some v \<Rightarrow> insert (fst u) v m | None \<Rightarrow> remove (fst u) m)"
  shows "get (fold apply_u us m) k
    = (case last_update us k of None \<Rightarrow> get m k | Some ov \<Rightarrow> ov)"
proof (induction us rule: rev_induct)
  case Nil
  show ?case by simp
next
  case (snoc u us)
  obtain l ov where u: "u = (l, ov)" by (cases u)
  show ?case using snoc
    by (auto simp: u assms get_insert get_remove split: option.split)
qed

lemma wf_replay:
  assumes "\<And>u m. apply_u u m = (case snd u of Some v \<Rightarrow> insert (fst u) v m | None \<Rightarrow> remove (fst u) m)"
    and "wf m"
  shows "wf (fold apply_u us m)"
  using assms(2)
  by (induction us arbitrary: m) (auto simp: assms(1) wf_insert wf_remove split: option.split)

end

lemma hm_get_insert [simp]: "hm_get (hm_insert k v m) l = (if l = k then Some v else hm_get m l)"
  by (simp add: hm_get_def hm_insert_def update_conv')

lemma hm_get_remove [simp]: "hm_get (hm_remove k m) l = (if l = k then None else hm_get m l)"
  by (simp add: hm_get_def hm_remove_def delete_conv')

lemma hm_get_new [simp]: "hm_get hm_new k = None"
  by (simp add: hm_get_def hm_new_def)

lemma hm_wf_intros [simp, intro]:
  "hm_wf hm_new"
  "hm_wf m \<Longrightarrow> hm_wf (hm_insert k v m)"
  "hm_wf m \<Longrightarrow> hm_wf (hm_remove k m)"
  by (simp_all add: hm_wf_def hm_new_def hm_insert_def hm_remove_def distinct_update distinct_delete)

interpretation hm: finite_map hm_new hm_insert hm_remove hm_get hm_wf
  by unfold_locales simp_all

section \<open>Iteration\<close>

lemma hash_order_set: "hash_order ord \<Longrightarrow> set (ord ks) = set ks"
  unfolding hash_order_def by (metis set_mset_mset)

lemma hash_order_distinct: "hash_order ord \<Longrightarrow> distinct (ord ks) = distinct ks"
  unfolding hash_order_def by (metis distinct_count_atmost_1 set_mset_mset)

lemma hash_order_length: "hash_order ord \<Longrightarrow> length (ord ks) = length ks"
  unfolding hash_order_def by (metis size_mset)

lemma hash_order_instances: "hash_order (\<lambda>ks. ks)" "hash_order rev" "hash_order sort"
  by (simp_all add: hash_order_def)

lemma map_fst_map_filter_pair:
  assumes "set ks \<subseteq> dom f"
  shows "map fst (List.map_filter (\<lambda>k. map_option (Pair k) (f k)) ks) = ks"
  using assms by (induction ks) (auto simp: List.map_filter_simps)

lemma map_fst_hm_iter: "hash_order ord \<Longrightarrow> map fst (hm_iter ord m) = ord (map fst m)"
  unfolding hm_iter_def hm_keys_def
  by (rule map_fst_map_filter_pair) (auto simp: hash_order_set dom_map_of_conv_image_fst)

lemma set_hm_iter: "hash_order ord \<Longrightarrow> (k, v) \<in> set (hm_iter ord m) \<longleftrightarrow> hm_get m k = Some v"
  by (auto simp: hm_iter_def hm_keys_def hm_get_def List.map_filter_def hash_order_set
      dest: map_of_SomeD intro!: image_eqI)

lemma distinct_hm_iter: "hash_order ord \<Longrightarrow> hm_wf m \<Longrightarrow> distinct (map fst (hm_iter ord m))"
  by (simp add: map_fst_hm_iter hash_order_distinct hm_wf_def)

lemma map_of_rev_distinct: "distinct (map fst kes) \<Longrightarrow> map_of (rev kes) = map_of kes"
  by (rule map_of_eqI) (auto simp: map_of_eq_Some_iff rev_map [symmetric] dest: map_of_SomeD)

lemma hm_get_hm_iter: "hash_order ord \<Longrightarrow> hm_wf m \<Longrightarrow> map_of (hm_iter ord m) k = hm_get m k"
  by (metis (no_types, lifting) distinct_hm_iter map_of_eq_Some_iff not_None_eq set_hm_iter)

lemma set_hm_keys: "hash_order ord \<Longrightarrow> k \<in> set (hm_keys ord m) \<longleftrightarrow> hm_get m k \<noteq> None"
  by (simp add: hm_keys_def hash_order_set hm_get_def map_of_eq_None_iff)

lemma hm_len_card: "hm_wf m \<Longrightarrow> hm_len m = card {k. hm_get m k \<noteq> None}"
proof -
  assume "hm_wf m"
  then have "card (set (map fst m)) = length m"
    by (metis distinct_card hm_wf_def length_map)
  moreover have "{k. hm_get m k \<noteq> None} = set (map fst m)"
    by (auto simp: hm_get_def map_of_eq_None_iff)
  ultimately show ?thesis by (simp add: hm_len_def)
qed

end
