(* ===== verification/Byte_Cursor.thy ===== *)
theory Byte_Cursor
  imports Hash_Map
begin

text \<open>
  What the decoders read through: \<open>std::io::Cursor\<close> over a byte slice, and the two
  third-party crates the codecs call. Those crates are not in the repository, so they are a
  parameter of the model: a record of the functions the code calls, passed to every
  definition that uses one. \<open>crc_checksum\<close> is \<open>Crc::checksum\<close> of the \<open>crc\<close> crate, of which
  nothing is assumed. The others are the conversions of \<open>byteorder\<close>'s \<open>ReadBytesExt\<close>; the
  locale \<open>byteorder\<close> states their documented behaviour on inputs of the right length.

  The locale \<open>entry_stream\<close> is the contract of the formats that are a plain sequence of
  entries read by a \<open>while position < len\<close> loop: the log, the index file, the records of a
  data file and the key list of a response. Its lemmas say that the loop reads back what the
  encoder wrote; \<open>torn_stream\<close> adds what happens when the last entry is cut short.
\<close>

section \<open>Third-party crates\<close>

record third_party =
  crc_checksum :: "bytes \<Rightarrow> u32"
  bo_u8 :: "bytes \<Rightarrow> u8"
  bo_u16_le :: "bytes \<Rightarrow> u16"
  bo_u32_le :: "bytes \<Rightarrow> u32"
  bo_u64_le :: "bytes \<Rightarrow> u64"
  bo_u16_be :: "bytes \<Rightarrow> u16"
  bo_u32_be :: "bytes \<Rightarrow> u32"

locale byteorder =
  fixes X :: third_party
  assumes bo_u8 [simp]: "bo_u8 X [b] = b"
    and bo_u16_le: "length bs = 2 \<Longrightarrow> bo_u16_le X bs = from_le_bytes bs"
    and bo_u32_le: "length bs = 4 \<Longrightarrow> bo_u32_le X bs = from_le_bytes bs"
    and bo_u64_le: "length bs = 8 \<Longrightarrow> bo_u64_le X bs = from_le_bytes bs"
    and bo_u16_be: "length bs = 2 \<Longrightarrow> bo_u16_be X bs = from_be_bytes bs"
    and bo_u32_be: "length bs = 4 \<Longrightarrow> bo_u32_be X bs = from_be_bytes bs"
begin

lemma bo_roundtrip [simp]:
  "bo_u16_le X (to_le_bytes 2 a) = a"
  "bo_u32_le X (to_le_bytes 4 b) = b"
  "bo_u64_le X (to_le_bytes 8 c) = c"
  "bo_u16_be X (to_be_bytes 2 a) = a"
  "bo_u32_be X (to_be_bytes 4 b) = b"
  by (simp_all add: bo_u16_le bo_u32_le bo_u64_le bo_u16_be bo_u32_be
      from_to_le_bytes from_to_be_bytes)

end

text \<open>An implementation as the crates document it, for any checksum function.\<close>

definition documented_crates :: "(bytes \<Rightarrow> u32) \<Rightarrow> third_party" where
  "documented_crates checksum =
     \<lparr>crc_checksum = checksum, bo_u8 = hd,
      bo_u16_le = from_le_bytes, bo_u32_le = from_le_bytes, bo_u64_le = from_le_bytes,
      bo_u16_be = from_be_bytes, bo_u32_be = from_be_bytes\<rparr>"

interpretation documented: byteorder "documented_crates checksum"
  by unfold_locales (simp_all add: documented_crates_def)

section \<open>The cursor\<close>

record cursor =
  cur_buf :: bytes
  cur_pos :: nat

definition Cursor_new :: "bytes \<Rightarrow> cursor" where
  "Cursor_new bs = \<lparr>cur_buf = bs, cur_pos = 0\<rparr>"

definition set_position :: "nat \<Rightarrow> cursor \<Rightarrow> cursor" where
  "set_position p c = c\<lparr>cur_pos := p\<rparr>"

text \<open>The loop guard \<open>cursor.position() < cursor.get_ref().len()\<close>.\<close>

definition has_more :: "cursor \<Rightarrow> bool" where
  "has_more c = (cur_pos c < length (cur_buf c))"

text \<open>What is left to read, and moving past \<open>n\<close> bytes.\<close>

definition cur_rest :: "cursor \<Rightarrow> bytes" where
  "cur_rest c = drop (cur_pos c) (cur_buf c)"

definition advance :: "nat \<Rightarrow> cursor \<Rightarrow> cursor" where
  "advance n c = c\<lparr>cur_pos := cur_pos c + n\<rparr>"

definition read_exact :: "nat \<Rightarrow> cursor \<Rightarrow> (bytes \<times> cursor) PDBResult" where
  "read_exact n c =
     (let rest = cur_rest c in
      if length rest < n then from_io (Inl eof_error) else Inr (take n rest, advance n c))"

text \<open>\<open>ReadBytesExt::read_u16::<LittleEndian>\<close> and its kin: fill a buffer, convert it.\<close>

definition read_u8 :: "third_party \<Rightarrow> cursor \<Rightarrow> (u8 \<times> cursor) PDBResult" where
  "read_u8 X c = and_then (read_exact 1 c) (\<lambda>(bs, c). Inr (bo_u8 X bs, c))"

definition read_u16_le :: "third_party \<Rightarrow> cursor \<Rightarrow> (u16 \<times> cursor) PDBResult" where
  "read_u16_le X c = and_then (read_exact 2 c) (\<lambda>(bs, c). Inr (bo_u16_le X bs, c))"

definition read_u32_le :: "third_party \<Rightarrow> cursor \<Rightarrow> (u32 \<times> cursor) PDBResult" where
  "read_u32_le X c = and_then (read_exact 4 c) (\<lambda>(bs, c). Inr (bo_u32_le X bs, c))"

definition read_u64_le :: "third_party \<Rightarrow> cursor \<Rightarrow> (u64 \<times> cursor) PDBResult" where
  "read_u64_le X c = and_then (read_exact 8 c) (\<lambda>(bs, c). Inr (bo_u64_le X bs, c))"

definition read_u16_be :: "third_party \<Rightarrow> cursor \<Rightarrow> (u16 \<times> cursor) PDBResult" where
  "read_u16_be X c = and_then (read_exact 2 c) (\<lambda>(bs, c). Inr (bo_u16_be X bs, c))"

definition read_u32_be :: "third_party \<Rightarrow> cursor \<Rightarrow> (u32 \<times> cursor) PDBResult" where
  "read_u32_be X c = and_then (read_exact 4 c) (\<lambda>(bs, c). Inr (bo_u32_be X bs, c))"

lemmas read_int_defs =
  read_u8_def read_u16_le_def read_u32_le_def read_u64_le_def read_u16_be_def read_u32_be_def

section \<open>Reading from a known remainder\<close>

lemma cur_rest_new [simp]: "cur_rest (Cursor_new bs) = bs"
  by (simp add: cur_rest_def Cursor_new_def)

lemma cur_pos_new [simp]: "cur_pos (Cursor_new bs) = 0"
  by (simp add: Cursor_new_def)

lemma cur_buf_new [simp]: "cur_buf (Cursor_new bs) = bs"
  by (simp add: Cursor_new_def)

lemma cur_rest_advance [simp]: "cur_rest (advance n c) = drop n (cur_rest c)"
  by (simp add: cur_rest_def advance_def add.commute)

lemma cur_pos_advance [simp]: "cur_pos (advance n c) = cur_pos c + n"
  by (simp add: advance_def)

lemma cur_buf_advance [simp]: "cur_buf (advance n c) = cur_buf c"
  by (simp add: advance_def)

lemma advance_advance [simp]: "advance n (advance m c) = advance (m + n) c"
  by (simp add: advance_def add.assoc)

lemma advance_0 [simp]: "advance 0 c = c"
  by (simp add: advance_def)

lemma set_position_plus: "set_position (cur_pos c + n) c = advance n c"
  by (simp add: set_position_def advance_def)

lemma has_more_iff: "has_more c \<longleftrightarrow> cur_rest c \<noteq> []"
  by (simp add: has_more_def cur_rest_def not_le)

lemma read_exact_rest [read_simps]:
  "n \<le> length (cur_rest c) \<Longrightarrow> read_exact n c = Inr (take n (cur_rest c), advance n c)"
  by (simp add: read_exact_def)

lemma read_exact_eof [read_simps]:
  "length (cur_rest c) < n \<Longrightarrow> read_exact n c = Inl (Err (Io eof_error))"
  by (simp add: read_exact_def)

lemma read_exact_InrD:
  "read_exact n c = Inr (bs, c') \<Longrightarrow>
   n \<le> length (cur_rest c) \<and> bs = take n (cur_rest c) \<and> c' = advance n c"
  by (simp add: read_exact_def Let_def split: if_split_asm)

lemma read_exact_InlD: "read_exact n c = Inl e \<Longrightarrow> e = Err (Io eof_error)"
  by (simp add: read_exact_def Let_def split: if_split_asm)

text \<open>A successful read of a fixed-width integer moves the cursor by that width.\<close>

lemma read_int_InrD:
  "read_u8 X c = Inr (a, c') \<Longrightarrow> 1 \<le> length (cur_rest c) \<and> c' = advance 1 c"
  "read_u16_le X c = Inr (b, c') \<Longrightarrow> 2 \<le> length (cur_rest c) \<and> c' = advance 2 c"
  "read_u32_le X c = Inr (d, c') \<Longrightarrow> 4 \<le> length (cur_rest c) \<and> c' = advance 4 c"
  "read_u64_le X c = Inr (e, c') \<Longrightarrow> 8 \<le> length (cur_rest c) \<and> c' = advance 8 c"
  "read_u16_be X c = Inr (b, c') \<Longrightarrow> 2 \<le> length (cur_rest c) \<and> c' = advance 2 c"
  "read_u32_be X c = Inr (d, c') \<Longrightarrow> 4 \<le> length (cur_rest c) \<and> c' = advance 4 c"
  by (auto simp: read_int_defs seq_iff dest: read_exact_InrD)

lemma read_int_rest [read_simps]:
  "1 \<le> length (cur_rest c) \<Longrightarrow> read_u8 X c = Inr (bo_u8 X (take 1 (cur_rest c)), advance 1 c)"
  "2 \<le> length (cur_rest c) \<Longrightarrow> read_u16_le X c = Inr (bo_u16_le X (take 2 (cur_rest c)), advance 2 c)"
  "4 \<le> length (cur_rest c) \<Longrightarrow> read_u32_le X c = Inr (bo_u32_le X (take 4 (cur_rest c)), advance 4 c)"
  "8 \<le> length (cur_rest c) \<Longrightarrow> read_u64_le X c = Inr (bo_u64_le X (take 8 (cur_rest c)), advance 8 c)"
  "2 \<le> length (cur_rest c) \<Longrightarrow> read_u16_be X c = Inr (bo_u16_be X (take 2 (cur_rest c)), advance 2 c)"
  "4 \<le> length (cur_rest c) \<Longrightarrow> read_u32_be X c = Inr (bo_u32_be X (take 4 (cur_rest c)), advance 4 c)"
  by (simp_all add: read_int_defs read_exact_rest)

lemma read_int_eof [read_simps]:
  "length (cur_rest c) < 1 \<Longrightarrow> read_u8 X c = Inl (Err (Io eof_error))"
  "length (cur_rest c) < 2 \<Longrightarrow> read_u16_le X c = Inl (Err (Io eof_error))"
  "length (cur_rest c) < 4 \<Longrightarrow> read_u32_le X c = Inl (Err (Io eof_error))"
  "length (cur_rest c) < 8 \<Longrightarrow> read_u64_le X c = Inl (Err (Io eof_error))"
  "length (cur_rest c) < 2 \<Longrightarrow> read_u16_be X c = Inl (Err (Io eof_error))"
  "length (cur_rest c) < 4 \<Longrightarrow> read_u32_be X c = Inl (Err (Io eof_error))"
  by (simp_all add: read_int_defs read_exact_eof)

text \<open>Running off the front of an explicit \<open>#\<close>.\<close>

declare drop_Cons' [read_simps] take_Cons' [read_simps]

section \<open>Streams of entries\<close>

text \<open>
  The effect of reading the entries \<open>xs\<close> in order, the first at position \<open>p\<close>: \<open>add\<close> is
  given the position at which each entry starts.
\<close>

fun add_all :: "('a \<Rightarrow> bytes) \<Rightarrow> (nat \<Rightarrow> 'a \<Rightarrow> 'o \<Rightarrow> 'o) \<Rightarrow> nat \<Rightarrow> 'a list \<Rightarrow> 'o \<Rightarrow> 'o" where
  "add_all enc add p [] acc = acc"
| "add_all enc add p (x # xs) acc = add_all enc add (p + length (enc x)) xs (add p x acc)"

lemma add_all_append:
  "add_all enc add p (xs @ ys) acc
     = add_all enc add (p + length (concat (map enc xs))) ys (add_all enc add p xs acc)"
  by (induction xs arbitrary: p acc) (simp_all add: add.assoc)

lemma add_all_fold: "(\<And>p x. add p x = f x) \<Longrightarrow> add_all enc add p xs acc = fold f xs acc"
  by (induction xs arbitrary: p acc) simp_all

lemma fold_snoc_eq: "fold (\<lambda>x acc. acc @ [x]) xs acc = acc @ xs"
  by (induction xs arbitrary: acc) simp_all

lemma add_all_snoc [simp]: "add_all enc (\<lambda>p x acc. acc @ [x]) p xs acc = acc @ xs"
  using add_all_fold [of "\<lambda>p x acc. acc @ [x]" "\<lambda>x acc. acc @ [x]"] by (simp add: fold_snoc_eq)

locale entry_stream =
  fixes cur :: "'d \<Rightarrow> cursor"
    and out :: "'d \<Rightarrow> 'o"
    and step :: "'d \<Rightarrow> 'd PDBResult"
    and loop :: "'d \<Rightarrow> 'd PDBResult"
    and enc :: "'a \<Rightarrow> bytes"
    and wf :: "'a \<Rightarrow> bool"
    and add :: "nat \<Rightarrow> 'a \<Rightarrow> 'o \<Rightarrow> 'o"
  assumes enc_nonempty: "wf x \<Longrightarrow> enc x \<noteq> []"
    and step_enc: "wf x \<Longrightarrow> cur_rest (cur d) = enc x @ ys \<Longrightarrow>
      \<exists>d'. step d = Inr d' \<and> cur d' = advance (length (enc x)) (cur d)
        \<and> out d' = add (cur_pos (cur d)) x (out d)"
    and loop_unfold: "loop d = (if has_more (cur d) then and_then (step d) loop else Inr d)"
begin

lemma loop_prefix:
  assumes "\<forall>x \<in> set xs. wf x" and "cur_rest (cur d) = concat (map enc xs) @ ys"
  shows "\<exists>d'. loop d = loop d' \<and> cur d' = advance (length (concat (map enc xs))) (cur d)
    \<and> cur_rest (cur d') = ys \<and> out d' = add_all enc add (cur_pos (cur d)) xs (out d)"
  using assms
proof (induction xs arbitrary: d)
  case Nil
  then show ?case by (intro exI [of _ d]) simp
next
  case (Cons x xs)
  have wf: "wf x" using Cons.prems by simp
  have rest: "cur_rest (cur d) = enc x @ concat (map enc xs) @ ys" using Cons.prems by simp
  obtain d1 where d1: "step d = Inr d1" "cur d1 = advance (length (enc x)) (cur d)"
    "out d1 = add (cur_pos (cur d)) x (out d)"
    using step_enc [OF wf rest] by blast
  have "has_more (cur d)" using rest enc_nonempty [OF wf] by (simp add: has_more_iff)
  then have loop: "loop d = loop d1" using d1(1) by (subst loop_unfold) simp
  have "cur_rest (cur d1) = concat (map enc xs) @ ys" using d1 rest by simp
  with Cons.IH [of d1] Cons.prems(1) obtain d2 where
    "loop d1 = loop d2" "cur d2 = advance (length (concat (map enc xs))) (cur d1)"
    "cur_rest (cur d2) = ys" "out d2 = add_all enc add (cur_pos (cur d1)) xs (out d1)"
    by auto
  with loop d1 show ?case by (intro exI [of _ d2]) simp
qed

lemma loop_all:
  assumes "\<forall>x \<in> set xs. wf x" and "cur_rest (cur d) = concat (map enc xs)"
  shows "\<exists>d'. loop d = Inr d' \<and> out d' = add_all enc add (cur_pos (cur d)) xs (out d)"
proof -
  obtain d' where "loop d = loop d'" "cur_rest (cur d') = []"
    "out d' = add_all enc add (cur_pos (cur d)) xs (out d)"
    using loop_prefix [of xs d "[]"] assms by auto
  moreover have "loop d' = Inr d'"
    using \<open>cur_rest (cur d') = []\<close> by (subst loop_unfold) (simp add: has_more_iff)
  ultimately show ?thesis by auto
qed

end

locale torn_stream = entry_stream +
  assumes step_torn: "wf x \<Longrightarrow> enc x = ys @ zs \<Longrightarrow> ys \<noteq> [] \<Longrightarrow> zs \<noteq> [] \<Longrightarrow> cur_rest (cur d) = ys \<Longrightarrow>
      step d = Inl (Err (Io eof_error))"
begin

lemma loop_torn:
  assumes "\<forall>x \<in> set xs. wf x" and "wf x" and "enc x = ys @ zs" and "ys \<noteq> []" and "zs \<noteq> []"
    and "cur_rest (cur d) = concat (map enc xs) @ ys"
  shows "loop d = Inl (Err (Io eof_error))"
proof -
  obtain d' where d': "loop d = loop d'" "cur_rest (cur d') = ys"
    using loop_prefix [of xs d ys] assms by auto
  have "has_more (cur d')" using d' assms by (simp add: has_more_iff)
  then have "loop d' = and_then (step d') loop" by (subst loop_unfold) simp
  with d' step_torn [of x ys zs d'] assms show ?thesis by simp
qed

end

end
