(* ===== verification/Db_Encoder.thy ===== *)
theory Db_Encoder
  imports Byte_Cursor
begin

text \<open>
  The writers of the data file: \<open>DbMeta\<close> of \<^verbatim>\<open>src/db/mod.rs\<close>, \<open>DBEncoder\<close>, \<open>encode\<close> and
  \<open>DBDeleter\<close> of \<^verbatim>\<open>src/db/codec.rs\<close>, with the closed form of what they write: the header is
  \<open>header_bytes\<close>, a record \<open>record_bytes\<close>, a tombstone \<open>tombstone_bytes\<close>.
\<close>

section \<open>Constants and metadata\<close>

record DbMeta =
  meta_version :: u8
  meta_record_count :: u64
  meta_name :: rstring

definition RECORD_MAGIC_NUMBER_BYTE_SIZE :: nat where "RECORD_MAGIC_NUMBER_BYTE_SIZE = 4"
definition RECORD_MAGIC_NUMBER :: bytes where "RECORD_MAGIC_NUMBER = [82, 69, 67, 0x01]"
definition CRC_OFFSET :: nat where
  "CRC_OFFSET = RECORD_MAGIC_NUMBER_BYTE_SIZE + KEY_LEN_BYTE_SIZE + FIELD_LEN_BYTE_SIZE"
definition CRC_BYTE_SIZE :: nat where "CRC_BYTE_SIZE = 4"

definition DB_HEADER_KEY :: bytes where "DB_HEADER_KEY = ascii ''Header--''"
definition DB_HEADER_MAGIC :: u64 where "DB_HEADER_MAGIC = 0x50656163684442"
definition DB_VERSION_KEY :: bytes where "DB_VERSION_KEY = ascii ''Version-''"
definition DB_VERSION :: u8 where "DB_VERSION = 1"
definition DB_VERSION_DECIMAL :: u8 where "DB_VERSION_DECIMAL = 0"
definition DB_RECORD_COUNT_KEY :: bytes where "DB_RECORD_COUNT_KEY = ascii ''RecCount''"
definition DB_NAME_KEY :: bytes where "DB_NAME_KEY = ascii ''DB Name-''"
definition DB_NAME_LEN :: nat where "DB_NAME_LEN = 64"

lemmas db_const_defs =
  RECORD_MAGIC_NUMBER_BYTE_SIZE_def RECORD_MAGIC_NUMBER_def CRC_OFFSET_def CRC_BYTE_SIZE_def
  KEY_LEN_BYTE_SIZE_def FIELD_LEN_BYTE_SIZE_def

section \<open>DBEncoder\<close>

record DBEncoder =
  de_buffer :: bytes
  de_field_start_position :: nat

definition DBEncoder_new :: DBEncoder where
  "DBEncoder_new = \<lparr>de_buffer = [], de_field_start_position = 0\<rparr>"

text \<open>The capacity of a vector is not observable.\<close>

definition DBEncoder_with_capacity :: "nat \<Rightarrow> DBEncoder" where
  "DBEncoder_with_capacity capacity = \<lparr>de_buffer = [], de_field_start_position = 0\<rparr>"

definition DBEncoder_write :: "bytes \<Rightarrow> DBEncoder \<Rightarrow> DBEncoder" where
  "DBEncoder_write buffer e = e\<lparr>de_buffer := de_buffer e @ buffer\<rparr>"

definition DBEncoder_encode_magic_number :: "DBEncoder \<Rightarrow> DBEncoder" where
  "DBEncoder_encode_magic_number e =
     DBEncoder_write RECORD_MAGIC_NUMBER (e\<lparr>de_field_start_position := length (de_buffer e)\<rparr>)"

definition DBEncoder_encode_key_len_u16 :: "nat \<Rightarrow> DBEncoder \<Rightarrow> DBEncoder" where
  "DBEncoder_encode_key_len_u16 len e = DBEncoder_write (to_le_bytes 2 (of_nat len :: u16)) e"

definition DBEncoder_encode_field_len_u32 :: "nat \<Rightarrow> DBEncoder \<Rightarrow> DBEncoder" where
  "DBEncoder_encode_field_len_u32 len e = DBEncoder_write (to_le_bytes 4 (of_nat len :: u32)) e"

definition DBEncoder_encode_key :: "Key \<Rightarrow> DBEncoder \<Rightarrow> DBEncoder" where
  "DBEncoder_encode_key key e = DBEncoder_write (Key_as_bytes key) e"

definition DBEncoder_encode_crc_placeholder :: "DBEncoder \<Rightarrow> DBEncoder" where
  "DBEncoder_encode_crc_placeholder e = DBEncoder_write [0, 0, 0, 0] e"

definition DBEncoder_encode_crc :: "third_party \<Rightarrow> DBEncoder \<Rightarrow> DBEncoder" where
  "DBEncoder_encode_crc X e =
     (let checksum = crc_checksum X (drop (de_field_start_position e + 4) (de_buffer e));
          offset = de_field_start_position e + CRC_OFFSET
      in e\<lparr>de_buffer := splice offset (to_le_bytes 4 checksum) (de_buffer e)\<rparr>)"

definition DBEncoder_encode_db_key_field_pair ::
    "third_party \<Rightarrow> Key \<Rightarrow> Field \<Rightarrow> DBEncoder \<Rightarrow> DBEncoder" where
  "DBEncoder_encode_db_key_field_pair X key field e =
     (let payload = bytes_from_field field;
          e = DBEncoder_encode_magic_number e;
          e = DBEncoder_encode_key_len_u16 (Key_len key) e;
          e = DBEncoder_encode_field_len_u32 (length payload) e;
          e = DBEncoder_encode_crc_placeholder e;
          e = DBEncoder_encode_key key e;
          e = DBEncoder_write payload e
      in DBEncoder_encode_crc X e)"

definition DBEncoder_encode_db_header_key :: "DBEncoder \<Rightarrow> DBEncoder" where
  "DBEncoder_encode_db_header_key e = e\<lparr>de_buffer := de_buffer e @ DB_HEADER_KEY\<rparr>"

definition DBEncoder_encode_db_header_magic :: "DBEncoder \<Rightarrow> DBEncoder" where
  "DBEncoder_encode_db_header_magic e = e\<lparr>de_buffer := de_buffer e @ to_le_bytes 8 DB_HEADER_MAGIC\<rparr>"

definition DBEncoder_encode_db_version_key :: "DBEncoder \<Rightarrow> DBEncoder" where
  "DBEncoder_encode_db_version_key e = e\<lparr>de_buffer := de_buffer e @ DB_VERSION_KEY\<rparr>"

definition DBEncoder_encode_db_version :: "DBEncoder \<Rightarrow> DBEncoder" where
  "DBEncoder_encode_db_version e = e\<lparr>de_buffer := de_buffer e @ [DB_VERSION]\<rparr>"

definition DBEncoder_encode_db_version_decimal :: "DBEncoder \<Rightarrow> DBEncoder" where
  "DBEncoder_encode_db_version_decimal e = e\<lparr>de_buffer := de_buffer e @ [DB_VERSION_DECIMAL]\<rparr>"

definition DBEncoder_encode_db_rc_key :: "DBEncoder \<Rightarrow> DBEncoder" where
  "DBEncoder_encode_db_rc_key e = e\<lparr>de_buffer := de_buffer e @ DB_RECORD_COUNT_KEY\<rparr>"

definition DBEncoder_encode_db_rc :: "u64 \<Rightarrow> DBEncoder \<Rightarrow> DBEncoder" where
  "DBEncoder_encode_db_rc rc e = e\<lparr>de_buffer := de_buffer e @ to_le_bytes 8 rc\<rparr>"

definition DBEncoder_encode_db_name_key :: "DBEncoder \<Rightarrow> DBEncoder" where
  "DBEncoder_encode_db_name_key e = e\<lparr>de_buffer := de_buffer e @ DB_NAME_KEY\<rparr>"

definition DBEncoder_encode_db_name :: "rstring \<Rightarrow> DBEncoder \<Rightarrow> DBEncoder" where
  "DBEncoder_encode_db_name name e =
     (let copy_len = min (length name) DB_NAME_LEN;
          name_bytes = splice 0 (take copy_len name) (replicate DB_NAME_LEN 0)
      in e\<lparr>de_buffer := de_buffer e @ name_bytes\<rparr>)"

definition DBEncoder_encode_db_header :: "DbMeta \<Rightarrow> DBEncoder \<Rightarrow> DBEncoder" where
  "DBEncoder_encode_db_header meta e =
     (let e = DBEncoder_encode_db_header_key e;
          e = DBEncoder_encode_db_header_magic e;
          e = DBEncoder_encode_db_version_key e;
          e = DBEncoder_encode_db_version e;
          e = DBEncoder_encode_db_version_decimal e;
          e = DBEncoder_encode_db_rc_key e;
          e = DBEncoder_encode_db_rc (meta_record_count meta) e;
          e = DBEncoder_encode_db_name_key e
      in DBEncoder_encode_db_name (meta_name meta) e)"

definition DBEncoder_encode_db_file ::
    "third_party \<Rightarrow> (Key list \<Rightarrow> Key list) \<Rightarrow> Field hashmap \<Rightarrow> DbMeta \<Rightarrow> DBEncoder \<Rightarrow> DBEncoder" where
  "DBEncoder_encode_db_file X ord flds meta e =
     fold (\<lambda>(key, field) e. DBEncoder_encode_db_key_field_pair X key field e) (hm_iter ord flds)
       (DBEncoder_encode_db_header meta e)"

definition DBEncoder_reset :: "DBEncoder \<Rightarrow> DBEncoder" where
  "DBEncoder_reset e = e\<lparr>de_buffer := [], de_field_start_position := 0\<rparr>"

definition DBEncoder_finish :: "DBEncoder \<Rightarrow> bytes" where
  "DBEncoder_finish e = de_buffer e"

definition encode :: "third_party \<Rightarrow> Key \<Rightarrow> Field \<Rightarrow> bytes" where
  "encode X key field =
     (let payload = bytes_from_field field;
          enc = DBEncoder_with_capacity
            (RECORD_MAGIC_NUMBER_BYTE_SIZE + KEY_LEN_BYTE_SIZE + FIELD_LEN_BYTE_SIZE + CRC_BYTE_SIZE
              + Key_len key + length payload)
      in DBEncoder_finish (DBEncoder_encode_db_key_field_pair X key field enc))"

section \<open>DBDeleter\<close>

record DBDeleter =
  dl_buffer :: bytes
  dl_key_len :: u16
  dl_field_len :: u32

definition DBDeleter_new :: DBDeleter where
  "DBDeleter_new = \<lparr>dl_buffer = [], dl_key_len = 0, dl_field_len = 0\<rparr>"

definition DBDeleter_set_key_len :: "u16 \<Rightarrow> DBDeleter \<Rightarrow> DBDeleter" where
  "DBDeleter_set_key_len len d = d\<lparr>dl_key_len := len\<rparr>"

definition DBDeleter_set_field_len :: "u32 \<Rightarrow> DBDeleter \<Rightarrow> DBDeleter" where
  "DBDeleter_set_field_len len d = d\<lparr>dl_field_len := len\<rparr>"

definition DBDeleter_write :: "bytes \<Rightarrow> DBDeleter \<Rightarrow> DBDeleter" where
  "DBDeleter_write buffer d = d\<lparr>dl_buffer := dl_buffer d @ buffer\<rparr>"

definition DBDeleter_encode_rec_magic :: "DBDeleter \<Rightarrow> DBDeleter" where
  "DBDeleter_encode_rec_magic d = DBDeleter_write [0, 0, 0, 0] d"

definition DBDeleter_encode_key_len :: "DBDeleter \<Rightarrow> DBDeleter" where
  "DBDeleter_encode_key_len d = DBDeleter_write (to_le_bytes 2 (dl_key_len d)) d"

definition DBDeleter_encode_field_len :: "DBDeleter \<Rightarrow> DBDeleter" where
  "DBDeleter_encode_field_len d = DBDeleter_write (to_le_bytes 4 (dl_field_len d)) d"

definition DBDeleter_encode_crc :: "DBDeleter \<Rightarrow> DBDeleter" where
  "DBDeleter_encode_crc d = DBDeleter_write [0, 0, 0, 0] d"

definition DBDeleter_encode_key :: "DBDeleter \<Rightarrow> DBDeleter" where
  "DBDeleter_encode_key d = DBDeleter_write (replicate (unat (dl_key_len d)) 0) d"

definition DBDeleter_encode_field :: "DBDeleter \<Rightarrow> DBDeleter" where
  "DBDeleter_encode_field d = DBDeleter_write (replicate (unat (dl_field_len d)) 0) d"

definition DBDeleter_get_deleted_field :: "DBDeleter \<Rightarrow> DBDeleter" where
  "DBDeleter_get_deleted_field d =
     (let d = DBDeleter_encode_rec_magic d;
          d = DBDeleter_encode_key_len d;
          d = DBDeleter_encode_field_len d;
          d = DBDeleter_encode_crc d;
          d = DBDeleter_encode_key d
      in DBDeleter_encode_field d)"

definition DBDeleter_finish :: "DBDeleter \<Rightarrow> bytes" where
  "DBDeleter_finish d = dl_buffer d"

definition DBDeleter_reset :: "DBDeleter \<Rightarrow> DBDeleter" where
  "DBDeleter_reset d = d\<lparr>dl_buffer := [], dl_key_len := 0, dl_field_len := 0\<rparr>"

lemmas DBDeleter_defs =
  DBDeleter_new_def DBDeleter_set_key_len_def DBDeleter_set_field_len_def DBDeleter_write_def
  DBDeleter_encode_rec_magic_def DBDeleter_encode_key_len_def DBDeleter_encode_field_len_def
  DBDeleter_encode_crc_def DBDeleter_encode_key_def DBDeleter_encode_field_def
  DBDeleter_get_deleted_field_def DBDeleter_finish_def DBDeleter_reset_def

section \<open>What the writers produce\<close>

text \<open>The lengths and the zeroed checksum field, key and payload are what the checksum covers.\<close>

definition record_summed :: "bytes \<Rightarrow> bytes \<Rightarrow> bytes \<Rightarrow> bytes" where
  "record_summed crc key payload =
     to_le_bytes 2 (of_nat (length key) :: u16) @ to_le_bytes 4 (of_nat (length payload) :: u32)
       @ crc @ key @ payload"

definition record_bytes :: "third_party \<Rightarrow> Key \<Rightarrow> Field \<Rightarrow> bytes" where
  "record_bytes X key field =
     (let payload = bytes_from_field field;
          crc = crc_checksum X (record_summed [0, 0, 0, 0] (Key_as_bytes key) payload)
      in RECORD_MAGIC_NUMBER @ record_summed (to_le_bytes 4 crc) (Key_as_bytes key) payload)"

lemma DBEncoder_record:
  "de_buffer (DBEncoder_encode_db_key_field_pair X key field e) = de_buffer e @ record_bytes X key field"
proof -
  let ?p = "bytes_from_field field" and ?k = "Key_as_bytes key"
  let ?lens = "to_le_bytes 2 (of_nat (Key_len key) :: u16) @ to_le_bytes 4 (of_nat (length ?p) :: u32)"
  let ?sum = "to_le_bytes 4 (crc_checksum X (?lens @ [0, 0, 0, 0] @ ?k @ ?p))"
  have "splice (length (de_buffer e) + CRC_OFFSET) ?sum
      ((de_buffer e @ RECORD_MAGIC_NUMBER @ ?lens) @ [0, 0, 0, 0] @ ?k @ ?p)
     = (de_buffer e @ RECORD_MAGIC_NUMBER @ ?lens) @ ?sum @ ?k @ ?p"
    by (rule splice_mid) (simp_all add: db_const_defs)
  then show ?thesis
    by (simp add: DBEncoder_encode_db_key_field_pair_def DBEncoder_encode_magic_number_def
        DBEncoder_encode_key_len_u16_def DBEncoder_encode_field_len_u32_def
        DBEncoder_encode_crc_placeholder_def DBEncoder_encode_key_def DBEncoder_write_def
        DBEncoder_encode_crc_def record_bytes_def record_summed_def Let_def Key_len_def
        db_const_defs)
qed

lemma encode_eq: "encode X key field = record_bytes X key field"
  by (simp add: encode_def Let_def DBEncoder_finish_def DBEncoder_record DBEncoder_with_capacity_def)

lemma length_record_bytes:
  "length (record_bytes X key field) = 14 + Key_len key + length (bytes_from_field field)"
  by (simp add: record_bytes_def record_summed_def Let_def RECORD_MAGIC_NUMBER_def Key_len_def)

definition name_field :: "rstring \<Rightarrow> bytes" where
  "name_field name = take 64 name @ replicate (64 - length name) 0"

definition header_bytes :: "u64 \<Rightarrow> bytes \<Rightarrow> bytes" where
  "header_bytes rc name64 =
     DB_HEADER_KEY @ to_le_bytes 8 DB_HEADER_MAGIC @ DB_VERSION_KEY @ [DB_VERSION, DB_VERSION_DECIMAL]
       @ DB_RECORD_COUNT_KEY @ to_le_bytes 8 rc @ DB_NAME_KEY @ name64"

lemma length_name_field [simp]: "length (name_field name) = 64"
  by (simp add: name_field_def)

lemma length_header_keys [simp]:
  "length DB_HEADER_KEY = 8" "length DB_VERSION_KEY = 8"
  "length DB_RECORD_COUNT_KEY = 8" "length DB_NAME_KEY = 8"
  by (simp_all add: DB_HEADER_KEY_def DB_VERSION_KEY_def DB_RECORD_COUNT_KEY_def DB_NAME_KEY_def)

lemma length_header_bytes: "length name64 = 64 \<Longrightarrow> length (header_bytes rc name64) = 114"
  by (simp add: header_bytes_def)

lemma DBEncoder_header:
  "de_buffer (DBEncoder_encode_db_header meta e)
     = de_buffer e @ header_bytes (meta_record_count meta) (name_field (meta_name meta))"
  by (simp add: DBEncoder_encode_db_header_def DBEncoder_encode_db_header_key_def
      DBEncoder_encode_db_header_magic_def DBEncoder_encode_db_version_key_def
      DBEncoder_encode_db_version_def DBEncoder_encode_db_version_decimal_def
      DBEncoder_encode_db_rc_key_def DBEncoder_encode_db_rc_def DBEncoder_encode_db_name_key_def
      DBEncoder_encode_db_name_def Let_def header_bytes_def name_field_def splice_def DB_NAME_LEN_def
      min_def)

lemma DBEncoder_file:
  "de_buffer (DBEncoder_encode_db_file X ord flds meta e)
     = de_buffer e @ header_bytes (meta_record_count meta) (name_field (meta_name meta))
       @ concat (map (\<lambda>(k, f). record_bytes X k f) (hm_iter ord flds))"
proof -
  have "de_buffer (fold (\<lambda>(key, field) e. DBEncoder_encode_db_key_field_pair X key field e) kfs e')
      = de_buffer e' @ concat (map (\<lambda>(k, f). record_bytes X k f) kfs)" for kfs e'
    by (induction kfs arbitrary: e') (auto simp: DBEncoder_record)
  then show ?thesis by (simp add: DBEncoder_encode_db_file_def DBEncoder_header)
qed

definition tombstone_bytes :: "u16 \<Rightarrow> u32 \<Rightarrow> bytes" where
  "tombstone_bytes kl fl =
     [0, 0, 0, 0] @ to_le_bytes 2 kl @ to_le_bytes 4 fl @ [0, 0, 0, 0]
       @ replicate (unat kl) 0 @ replicate (unat fl) 0"

lemma DBDeleter_tombstone:
  assumes "dl_buffer d = []"
  shows "DBDeleter_finish (DBDeleter_get_deleted_field
      (DBDeleter_set_field_len fl (DBDeleter_set_key_len kl d))) = tombstone_bytes kl fl"
  using assms by (simp add: DBDeleter_defs tombstone_bytes_def Let_def)

lemma length_tombstone_bytes: "length (tombstone_bytes kl fl) = 14 + unat kl + unat fl"
  by (simp add: tombstone_bytes_def)

end
