(* ===== verification/Db_Decoder.thy ===== *)
theory Db_Decoder
  imports Db_Encoder
begin

text \<open>
  The reader of the data file: \<open>DBDecoder\<close> and \<open>decode\<close> of \<^verbatim>\<open>src/db/codec.rs\<close>. A data file
  is a header followed by slots, each a live record or the tombstone of a deleted one; the
  lemmas relate decoding a file to the map its slots stand for, \<open>slots_map\<close>.
\<close>

section \<open>DBDecoder\<close>

record DBDecoder =
  dd_cursor :: cursor
  dd_db :: "Field hashmap"
  dd_meta :: "DbMeta option"
  dd_deleted :: bool
  dd_last_key_len :: u16
  dd_last_field_len :: u32
  dd_last_crc :: u32
  dd_last_key :: bytes
  dd_last_field :: bytes

definition DBDecoder_new :: "bytes \<Rightarrow> DBDecoder" where
  "DBDecoder_new bs =
     \<lparr>dd_cursor = Cursor_new bs, dd_db = hm_new, dd_meta = None, dd_deleted = False,
      dd_last_key_len = 0, dd_last_field_len = 0, dd_last_crc = 0, dd_last_key = [],
      dd_last_field = []\<rparr>"

definition DBDecoder_read_magic_number :: "DBDecoder \<Rightarrow> DBDecoder PDBResult" where
  "DBDecoder_read_magic_number d =
     and_then (read_exact 4 (dd_cursor d)) (\<lambda>(m, c).
       if m = [0, 0, 0, 0] then Inr (d\<lparr>dd_cursor := c, dd_deleted := True\<rparr>)
       else if m = RECORD_MAGIC_NUMBER then Inr (d\<lparr>dd_cursor := c, dd_deleted := False\<rparr>)
       else Inl (Err InvalidMagicBytes))"

definition DBDecoder_read_key_len :: "DBDecoder \<Rightarrow> DBDecoder PDBResult" where
  "DBDecoder_read_key_len d =
     and_then (read_exact 2 (dd_cursor d)) (\<lambda>(bs, c).
       Inr (d\<lparr>dd_cursor := c, dd_last_key_len := from_le_bytes bs\<rparr>))"

definition DBDecoder_read_field_len :: "DBDecoder \<Rightarrow> DBDecoder PDBResult" where
  "DBDecoder_read_field_len d =
     and_then (read_exact 4 (dd_cursor d)) (\<lambda>(bs, c).
       Inr (d\<lparr>dd_cursor := c, dd_last_field_len := from_le_bytes bs\<rparr>))"

definition DBDecoder_read_crc :: "DBDecoder \<Rightarrow> DBDecoder PDBResult" where
  "DBDecoder_read_crc d =
     and_then (read_exact 4 (dd_cursor d)) (\<lambda>(bs, c).
       Inr (d\<lparr>dd_cursor := c, dd_last_crc := from_le_bytes bs\<rparr>))"

definition DBDecoder_read_key :: "DBDecoder \<Rightarrow> DBDecoder PDBResult" where
  "DBDecoder_read_key d =
     and_then (read_exact (unat (dd_last_key_len d)) (dd_cursor d)) (\<lambda>(bs, c).
       Inr (d\<lparr>dd_cursor := c, dd_last_key := bs\<rparr>))"

definition DBDecoder_read_field :: "DBDecoder \<Rightarrow> DBDecoder PDBResult" where
  "DBDecoder_read_field d =
     and_then (read_exact (unat (dd_last_field_len d)) (dd_cursor d)) (\<lambda>(bs, c).
       Inr (d\<lparr>dd_cursor := c, dd_last_field := bs\<rparr>))"

definition DBDecoder_check_crc :: "third_party \<Rightarrow> DBDecoder \<Rightarrow> DBDecoder PDBResult" where
  "DBDecoder_check_crc X d =
     (let header_for_crc =
            to_le_bytes 2 (dd_last_key_len d) @ to_le_bytes 4 (dd_last_field_len d)
              @ [0, 0, 0, 0] @ dd_last_key d @ dd_last_field d;
          computed = crc_checksum X header_for_crc
      in if computed \<noteq> dd_last_crc d
         then Inl (Err (CorruptedRecord (ascii ''Checksum Mismatch''))) else Inr d)"

definition DBDecoder_decode_db_key_field_pair :: "third_party \<Rightarrow> DBDecoder \<Rightarrow> DBDecoder PDBResult" where
  "DBDecoder_decode_db_key_field_pair X d =
     and_then (DBDecoder_read_magic_number d) (\<lambda>d.
     and_then (DBDecoder_read_key_len d) (\<lambda>d.
     and_then (DBDecoder_read_field_len d) (\<lambda>d.
     and_then (DBDecoder_read_crc d) (\<lambda>d.
     and_then (DBDecoder_read_key d) (\<lambda>d.
     and_then (DBDecoder_read_field d) (\<lambda>d.
       if \<not> dd_deleted d
       then and_then (DBDecoder_check_crc X d) (\<lambda>d.
            and_then (field_from_bytes (dd_last_field d)) (\<lambda>(field, _).
            Inr (d\<lparr>dd_db := hm_insert (Key (dd_last_key d)) field (dd_db d)\<rparr>)))
       else Inr d))))))"

definition DBDecoder_is_metadata_key :: "bytes \<Rightarrow> bool" where
  "DBDecoder_is_metadata_key key =
     (key = DB_HEADER_KEY \<or> key = DB_VERSION_KEY \<or> key = DB_RECORD_COUNT_KEY \<or> key = DB_NAME_KEY)"

definition DBDecoder_read_metadata_key :: "DBDecoder \<Rightarrow> DBDecoder PDBResult" where
  "DBDecoder_read_metadata_key d =
     and_then (read_exact 8 (dd_cursor d)) (\<lambda>(key_buf, c).
       if DBDecoder_is_metadata_key key_buf then Inr (d\<lparr>dd_cursor := c\<rparr>)
       else Inl (Err InvalidMagicBytes))"

definition DBDecoder_decode_db_header :: "third_party \<Rightarrow> DBDecoder \<Rightarrow> DBDecoder PDBResult" where
  "DBDecoder_decode_db_header X d =
     (let d = d\<lparr>dd_cursor := set_position 0 (dd_cursor d)\<rparr> in
      and_then (DBDecoder_read_metadata_key d) (\<lambda>d.
      and_then (read_u64_le X (dd_cursor d)) (\<lambda>(header, c).
      and_then (DBDecoder_read_metadata_key (d\<lparr>dd_cursor := c\<rparr>)) (\<lambda>d.
      and_then (read_u8 X (dd_cursor d)) (\<lambda>(version, c).
      and_then (read_u8 X c) (\<lambda>(version_decimal, c).
      and_then (DBDecoder_read_metadata_key (d\<lparr>dd_cursor := c\<rparr>)) (\<lambda>d.
      and_then (read_u64_le X (dd_cursor d)) (\<lambda>(record_count, c).
      and_then (DBDecoder_read_metadata_key (d\<lparr>dd_cursor := c\<rparr>)) (\<lambda>d.
      and_then (read_exact 64 (dd_cursor d)) (\<lambda>(db_name, c).
      Inr (d\<lparr>dd_cursor := c,
             dd_meta := Some \<lparr>meta_version = version, meta_record_count = record_count,
               meta_name = trim_nul (from_utf8_lossy db_name)\<rparr>\<rparr>)))))))))))"

lemmas DBDecoder_step_defs =
  DBDecoder_read_magic_number_def DBDecoder_read_key_len_def DBDecoder_read_field_len_def
  DBDecoder_read_crc_def DBDecoder_read_key_def DBDecoder_read_field_def
  DBDecoder_decode_db_key_field_pair_def

text \<open>How far each step moves the cursor, and what it keeps.\<close>

lemma DBDecoder_reads_InrD:
  "DBDecoder_read_magic_number d = Inr d' \<Longrightarrow>
     4 \<le> length (cur_rest (dd_cursor d)) \<and> dd_cursor d' = advance 4 (dd_cursor d)"
  "DBDecoder_read_key_len d = Inr d' \<Longrightarrow> dd_cursor d' = advance 2 (dd_cursor d)"
  "DBDecoder_read_field_len d = Inr d' \<Longrightarrow> dd_cursor d' = advance 4 (dd_cursor d)"
  "DBDecoder_read_crc d = Inr d' \<Longrightarrow> dd_cursor d' = advance 4 (dd_cursor d)"
  "DBDecoder_read_key d = Inr d' \<Longrightarrow>
     dd_cursor d' = advance (unat (dd_last_key_len d)) (dd_cursor d)"
  "DBDecoder_read_field d = Inr d' \<Longrightarrow>
     dd_cursor d' = advance (unat (dd_last_field_len d)) (dd_cursor d)"
  "DBDecoder_check_crc X d = Inr d' \<Longrightarrow> d' = d"
  by (auto simp: DBDecoder_read_magic_number_def DBDecoder_read_key_len_def
      DBDecoder_read_field_len_def DBDecoder_read_crc_def DBDecoder_read_key_def
      DBDecoder_read_field_def DBDecoder_check_crc_def Let_def seq_iff
      split: if_split_asm dest!: read_exact_InrD)

lemma DBDecoder_decode_pair_advances:
  assumes "DBDecoder_decode_db_key_field_pair X d = Inr d'"
  shows "length (cur_rest (dd_cursor d')) < length (cur_rest (dd_cursor d))"
proof -
  obtain d1 d2 d3 d4 d5 d6 where r: "DBDecoder_read_magic_number d = Inr d1"
    "DBDecoder_read_key_len d1 = Inr d2" "DBDecoder_read_field_len d2 = Inr d3"
    "DBDecoder_read_crc d3 = Inr d4" "DBDecoder_read_key d4 = Inr d5"
    "DBDecoder_read_field d5 = Inr d6" and last: "dd_cursor d' = dd_cursor d6"
    using assms unfolding DBDecoder_decode_db_key_field_pair_def seq_iff
    by (auto split: if_split_asm simp: seq_iff dest: DBDecoder_reads_InrD(7))
  from DBDecoder_reads_InrD(1) [OF r(1)] DBDecoder_reads_InrD(2) [OF r(2)]
    DBDecoder_reads_InrD(3) [OF r(3)] DBDecoder_reads_InrD(4) [OF r(4)]
    DBDecoder_reads_InrD(5) [OF r(5)] DBDecoder_reads_InrD(6) [OF r(6)] last
  show ?thesis by auto
qed

text \<open>The \<open>while\<close> loop of \<open>decode_db_file\<close>.\<close>

function DBDecoder_decode_records :: "third_party \<Rightarrow> DBDecoder \<Rightarrow> DBDecoder PDBResult" where
  "DBDecoder_decode_records X d =
     (if has_more (dd_cursor d)
      then and_then (DBDecoder_decode_db_key_field_pair X d) (DBDecoder_decode_records X)
      else Inr d)"
  by pat_completeness auto
termination
  by (relation "measure (\<lambda>(X, d). length (cur_rest (dd_cursor d)))")
    (simp_all add: DBDecoder_decode_pair_advances)

declare DBDecoder_decode_records.simps [simp del]

definition DBDecoder_decode_db_file :: "third_party \<Rightarrow> DBDecoder \<Rightarrow> DBDecoder PDBResult" where
  "DBDecoder_decode_db_file X d =
     and_then (DBDecoder_decode_db_header X d) (DBDecoder_decode_records X)"

definition DBDecoder_finish :: "DBDecoder \<Rightarrow> (Field hashmap \<times> DbMeta) PDBResult" where
  "DBDecoder_finish d =
     (case dd_meta d of None \<Rightarrow> Inl (Err InvalidFinishCall) | Some meta \<Rightarrow> Inr (dd_db d, meta))"

text \<open>The convenience wrapper: the first entry the map yields, of which there is at most one.\<close>

definition decode :: "third_party \<Rightarrow> bytes \<Rightarrow> (Key \<times> Field) PDBResult" where
  "decode X bs =
     and_then (DBDecoder_decode_db_key_field_pair X (DBDecoder_new bs)) (\<lambda>dec.
       case hm_iter (\<lambda>ks. ks) (dd_db dec) of
         (k, v) # _ \<Rightarrow> Inr (k, v)
       | [] \<Rightarrow> Inl (Err InvalidFinishCall))"

section \<open>Slots\<close>

datatype slot = Live Key Field | Dead u16 u32

fun slot_bytes :: "third_party \<Rightarrow> slot \<Rightarrow> bytes" where
  "slot_bytes X (Live k f) = record_bytes X k f"
| "slot_bytes X (Dead kl fl) = tombstone_bytes kl fl"

fun storable_slot :: "slot \<Rightarrow> bool" where
  "storable_slot (Live k f) = (storable_key k \<and> storable_field f)"
| "storable_slot (Dead kl fl) = True"

definition slots_bytes :: "third_party \<Rightarrow> slot list \<Rightarrow> bytes" where
  "slots_bytes X ss = concat (map (slot_bytes X) ss)"

lemma slots_bytes_simps [simp]:
  "slots_bytes X [] = []"
  "slots_bytes X (s # ss) = slot_bytes X s @ slots_bytes X ss"
  "slots_bytes X (ss @ ts) = slots_bytes X ss @ slots_bytes X ts"
  by (simp_all add: slots_bytes_def)

text \<open>What loading the slots puts into the map: each live slot overwrites earlier ones.\<close>

fun load_slot :: "slot \<Rightarrow> Field hashmap \<Rightarrow> Field hashmap" where
  "load_slot (Live k f) m = hm_insert k f m"
| "load_slot (Dead kl fl) m = m"

text \<open>The last live value of a key, if it has one.\<close>

definition slots_map :: "slot list \<Rightarrow> Key \<Rightarrow> Field option" where
  "slots_map ss k = hm_get (fold load_slot ss hm_new) k"

lemma slot_bytes_nonempty [simp]: "slot_bytes X s \<noteq> []"
  by (cases s) (simp_all add: record_bytes_def Let_def RECORD_MAGIC_NUMBER_def tombstone_bytes_def)

section \<open>Decoding what was written\<close>

lemma decode_live_slot:
  assumes "storable_key k" and "storable_field f"
    and rest: "cur_rest (dd_cursor d) = record_bytes X k f @ ys"
  shows "\<exists>d'. DBDecoder_decode_db_key_field_pair X d = Inr d'
    \<and> dd_cursor d' = advance (length (record_bytes X k f)) (dd_cursor d)
    \<and> dd_db d' = hm_insert k f (dd_db d) \<and> dd_meta d' = dd_meta d"
  using storable_key_len [OF assms(1)] storable_field_len [OF assms(2)]
    storable_field_roundtrip [OF assms(2)]
  by (simp add: DBDecoder_step_defs DBDecoder_check_crc_def read_simps rest record_bytes_def
      record_summed_def Let_def RECORD_MAGIC_NUMBER_def from_to_le_bytes Key_len_def)

lemma decode_dead_slot:
  assumes rest: "cur_rest (dd_cursor d) = tombstone_bytes kl fl @ ys"
  shows "\<exists>d'. DBDecoder_decode_db_key_field_pair X d = Inr d'
    \<and> dd_cursor d' = advance (length (tombstone_bytes kl fl)) (dd_cursor d)
    \<and> dd_db d' = dd_db d \<and> dd_meta d' = dd_meta d"
  by (simp add: DBDecoder_step_defs read_simps rest tombstone_bytes_def from_to_le_bytes)

text \<open>A slot cut short is an end-of-file error: every byte of it is read before any check.\<close>

lemma decode_torn_reads:
  assumes rest: "cur_rest (dd_cursor d) = take n (m @ to_le_bytes 2 kl @ to_le_bytes 4 fl @ crc @ ks @ fs)"
    and "length m = 4" and "m = [0, 0, 0, 0] \<or> m = RECORD_MAGIC_NUMBER"
    and "length crc = 4" and "length ks = unat (kl :: u16)" and "length fs = unat (fl :: u32)"
    and n: "n < 14 + unat kl + unat fl"
  shows "DBDecoder_decode_db_key_field_pair X d = Inl (Err (Io eof_error))"
proof -
  consider "n < 4" | "4 \<le> n" "n < 6" | "6 \<le> n" "n < 10" | "10 \<le> n" "n < 14"
    | "14 \<le> n" "n < 14 + unat kl" | "14 + unat kl \<le> n" "n < 14 + unat kl + unat fl"
    using n by linarith
  then show ?thesis
    using assms(2-6)
    by cases (auto simp: DBDecoder_step_defs read_simps rest from_to_le_bytes min_def
        RECORD_MAGIC_NUMBER_def)
qed

lemma decode_slot_torn:
  assumes "storable_slot s" and bytes: "slot_bytes X s = ys @ zs" and "zs \<noteq> []"
    and rest: "cur_rest (dd_cursor d) = ys"
  shows "DBDecoder_decode_db_key_field_pair X d = Inl (Err (Io eof_error))"
proof -
  define n where "n = length ys"
  have ys: "cur_rest (dd_cursor d) = take n (slot_bytes X s)" by (simp add: bytes n_def rest)
  have n: "n < length (slot_bytes X s)" using assms(3) by (simp add: bytes n_def)
  show ?thesis
  proof (cases s)
    case (Live k f)
    let ?p = "bytes_from_field f"
    have "cur_rest (dd_cursor d) = take n (RECORD_MAGIC_NUMBER
        @ to_le_bytes 2 (of_nat (length (Key_as_bytes k)) :: u16)
        @ to_le_bytes 4 (of_nat (length ?p) :: u32)
        @ to_le_bytes 4 (crc_checksum X (record_summed [0, 0, 0, 0] (Key_as_bytes k) ?p))
        @ Key_as_bytes k @ ?p)"
      using ys by (simp add: Live record_bytes_def record_summed_def Let_def)
    from decode_torn_reads [OF this] show ?thesis
      using n assms(1) storable_key_len [of k] storable_field_len [of f]
      by (simp add: Live RECORD_MAGIC_NUMBER_def length_record_bytes Key_len_def)
  next
    case (Dead kl fl)
    then show ?thesis
      using n ys by (intro decode_torn_reads [of d n "[0, 0, 0, 0]" kl fl "[0, 0, 0, 0]"
            "replicate (unat kl) 0" "replicate (unat fl) 0"])
        (simp_all add: tombstone_bytes_def)
  qed
qed

text \<open>A record whose payload was altered is rejected whenever the checksum tells the two apart.\<close>

lemma decode_corrupted_record:
  assumes "storable_key k" and "length p < 2 ^ 32"
    and rest: "cur_rest (dd_cursor d) = RECORD_MAGIC_NUMBER
      @ record_summed (to_le_bytes 4 crc) (Key_as_bytes k) p @ ys"
    and "crc_checksum X (record_summed [0, 0, 0, 0] (Key_as_bytes k) p) \<noteq> crc"
  shows "DBDecoder_decode_db_key_field_pair X d
    = Inl (Err (CorruptedRecord (ascii ''Checksum Mismatch'')))"
  using storable_key_len [OF assms(1)] unat_of_nat_u32 [OF assms(2)] assms(4)
  by (simp add: DBDecoder_step_defs DBDecoder_check_crc_def read_simps rest
      record_summed_def Let_def RECORD_MAGIC_NUMBER_def from_to_le_bytes Key_len_def)

text \<open>Whatever bytes decode as a live record carry a matching checksum.\<close>

lemma decode_pair_checked:
  assumes "DBDecoder_decode_db_key_field_pair X d = Inr d'" and "\<not> dd_deleted d'"
  shows "crc_checksum X (to_le_bytes 2 (dd_last_key_len d') @ to_le_bytes 4 (dd_last_field_len d')
      @ [0, 0, 0, 0] @ dd_last_key d' @ dd_last_field d') = dd_last_crc d'
    \<and> (\<exists>f n. field_from_bytes (dd_last_field d') = Inr (f, n)
        \<and> hm_get (dd_db d') (Key (dd_last_key d')) = Some f)"
proof -
  obtain d0 d1 f n where chk0: "DBDecoder_check_crc X d0 = Inr d1"
    and fld: "field_from_bytes (dd_last_field d1) = Inr (f, n)"
    and d': "d' = d1\<lparr>dd_db := hm_insert (Key (dd_last_key d1)) f (dd_db d1)\<rparr>"
    using assms unfolding DBDecoder_decode_db_key_field_pair_def seq_iff
    by (auto split: if_split_asm simp: seq_iff)
  have chk: "DBDecoder_check_crc X d1 = Inr d1"
    using chk0 DBDecoder_reads_InrD(7) [OF chk0] by simp
  from chk show ?thesis
    by (simp add: DBDecoder_check_crc_def Let_def d' fld split: if_split_asm)
qed

section \<open>The header\<close>

lemma metadata_keys [simp]:
  "DBDecoder_is_metadata_key DB_HEADER_KEY" "DBDecoder_is_metadata_key DB_VERSION_KEY"
  "DBDecoder_is_metadata_key DB_RECORD_COUNT_KEY" "DBDecoder_is_metadata_key DB_NAME_KEY"
  by (simp_all add: DBDecoder_is_metadata_key_def)

context byteorder
begin

lemma decode_header_bytes:
  assumes buf: "cur_buf (dd_cursor d) = header_bytes rc name64 @ ys" and "length name64 = 64"
  shows "DBDecoder_decode_db_header X d
    = Inr (d\<lparr>dd_cursor := advance 114 (set_position 0 (dd_cursor d)),
        dd_meta := Some \<lparr>meta_version = DB_VERSION, meta_record_count = rc,
          meta_name = trim_nul (from_utf8_lossy name64)\<rparr>\<rparr>)"
proof -
  have "cur_rest (set_position 0 (dd_cursor d)) = header_bytes rc name64 @ ys"
    by (simp add: cur_rest_def set_position_def buf)
  then show ?thesis
    using assms(2)
    by (simp add: DBDecoder_decode_db_header_def DBDecoder_read_metadata_key_def Let_def read_simps
        header_bytes_def)
qed

end

sublocale byteorder \<subseteq> slot_stream: torn_stream dd_cursor "\<lambda>d. (dd_db d, dd_meta d)"
    "DBDecoder_decode_db_key_field_pair X" "DBDecoder_decode_records X"
    "slot_bytes X" storable_slot "\<lambda>p s acc. (load_slot s (fst acc), snd acc)"
proof (unfold_locales, goal_cases)
  case (1 s)
  show ?case by simp
next
  case (2 s d ys)
  then show ?case
    using decode_live_slot [of _ _ d X ys] decode_dead_slot [of d _ _ ys X] by (cases s) auto
next
  case (3 d)
  show ?case by (subst DBDecoder_decode_records.simps) (rule refl)
next
  case (4 s ys zs d)
  then show ?case by (intro decode_slot_torn)
qed

section \<open>Whole files\<close>

definition decode_db :: "third_party \<Rightarrow> bytes \<Rightarrow> (Field hashmap \<times> DbMeta) PDBResult" where
  "decode_db X bs = and_then (DBDecoder_decode_db_file X (DBDecoder_new bs)) DBDecoder_finish"

lemma DBDecoder_new_simps [simp]:
  "dd_cursor (DBDecoder_new bs) = Cursor_new bs"
  "dd_db (DBDecoder_new bs) = hm_new"
  "dd_meta (DBDecoder_new bs) = None"
  by (simp_all add: DBDecoder_new_def)

lemma set_position_0_new [simp]: "set_position 0 (Cursor_new bs) = Cursor_new bs"
  by (simp add: set_position_def Cursor_new_def)

lemma add_all_load_slot:
  "add_all enc (\<lambda>p s acc. (load_slot s (fst acc), snd acc)) p ss (m, t) = (fold load_slot ss m, t)"
  by (induction ss arbitrary: p m) simp_all

lemma hm_get_load_slots:
  "hm_get (fold load_slot ss m) k = (case slots_map ss k of None \<Rightarrow> hm_get m k | Some f \<Rightarrow> Some f)"
proof (induction ss rule: rev_induct)
  case Nil
  show ?case by (simp add: slots_map_def)
next
  case (snoc s ss)
  then show ?case by (cases s) (simp_all add: slots_map_def)
qed

lemma slots_map_simps [simp]:
  "slots_map [] k = None"
  "slots_map (ss @ ts) k = (case slots_map ts k of None \<Rightarrow> slots_map ss k | Some f \<Rightarrow> Some f)"
  "slots_map (Live l f # ss) k
     = (case slots_map ss k of None \<Rightarrow> if k = l then Some f else None | Some g \<Rightarrow> Some g)"
  "slots_map (Dead kl fl # ss) k = slots_map ss k"
  using hm_get_load_slots [of ts "fold load_slot ss hm_new" k]
    hm_get_load_slots [of ss "hm_insert l f hm_new" k]
  by (auto simp: slots_map_def split: option.split)

lemma hm_wf_load_slots: "hm_wf m \<Longrightarrow> hm_wf (fold load_slot ss m)"
proof (induction ss arbitrary: m)
  case (Cons s ss)
  then show ?case by (cases s) auto
qed simp

lemma slots_map_None_iff: "slots_map ss k = None \<longleftrightarrow> (\<forall>f. Live k f \<notin> set ss)"
proof (induction ss)
  case (Cons s ss)
  then show ?case by (cases s) (auto split: option.split)
qed simp

context byteorder
begin

lemma decode_header_new:
  assumes "length name64 = 64"
  shows "DBDecoder_decode_db_header X (DBDecoder_new (header_bytes rc name64 @ ys))
    = Inr ((DBDecoder_new (header_bytes rc name64 @ ys))
        \<lparr>dd_cursor := advance 114 (Cursor_new (header_bytes rc name64 @ ys)),
         dd_meta := Some \<lparr>meta_version = DB_VERSION, meta_record_count = rc,
           meta_name = trim_nul (from_utf8_lossy name64)\<rparr>\<rparr>)"
  using decode_header_bytes [of "DBDecoder_new (header_bytes rc name64 @ ys)"] assms by simp

lemma decode_db_slots:
  assumes "length name64 = 64" and "\<forall>s \<in> set ss. storable_slot s"
  shows "decode_db X (header_bytes rc name64 @ slots_bytes X ss)
    = Inr (fold load_slot ss hm_new,
        \<lparr>meta_version = DB_VERSION, meta_record_count = rc,
         meta_name = trim_nul (from_utf8_lossy name64)\<rparr>)"
proof -
  let ?bs = "header_bytes rc name64 @ slots_bytes X ss"
  let ?m = "\<lparr>meta_version = DB_VERSION, meta_record_count = rc,
         meta_name = trim_nul (from_utf8_lossy name64)\<rparr>"
  let ?d = "(DBDecoder_new ?bs)\<lparr>dd_cursor := advance 114 (Cursor_new ?bs), dd_meta := Some ?m\<rparr>"
  have "cur_rest (dd_cursor ?d) = concat (map (slot_bytes X) ss)"
    using assms(1) by (simp add: length_header_bytes slots_bytes_def)
  then obtain d' where "DBDecoder_decode_records X ?d = Inr d'"
    "(dd_db d', dd_meta d') = (fold load_slot ss hm_new, Some ?m)"
    using slot_stream.loop_all [of ss ?d] assms(2) by (auto simp: add_all_load_slot)
  then show ?thesis
    using decode_header_new [OF assms(1)]
    by (simp add: decode_db_def DBDecoder_decode_db_file_def DBDecoder_finish_def)
qed

lemma decode_db_torn:
  assumes "length name64 = 64" and "\<forall>s \<in> set ss. storable_slot s" and "storable_slot s"
    and "slot_bytes X s = ys @ zs" and "ys \<noteq> []" and "zs \<noteq> []"
  shows "decode_db X (header_bytes rc name64 @ slots_bytes X ss @ ys) = Inl (Err (Io eof_error))"
proof -
  let ?bs = "header_bytes rc name64 @ slots_bytes X ss @ ys"
  let ?m = "\<lparr>meta_version = DB_VERSION, meta_record_count = rc,
         meta_name = trim_nul (from_utf8_lossy name64)\<rparr>"
  let ?d = "(DBDecoder_new ?bs)\<lparr>dd_cursor := advance 114 (Cursor_new ?bs), dd_meta := Some ?m\<rparr>"
  have "cur_rest (dd_cursor ?d) = concat (map (slot_bytes X) ss) @ ys"
    using assms(1) by (simp add: length_header_bytes slots_bytes_def)
  then have "DBDecoder_decode_records X ?d = Inl (Err (Io eof_error))"
    using slot_stream.loop_torn [of ss s ys zs ?d] assms by simp
  then show ?thesis
    using decode_header_new [OF assms(1)]
    by (simp add: decode_db_def DBDecoder_decode_db_file_def)
qed

end

section \<open>Properties\<close>

text \<open>
  C17. A record written by \<open>encode\<close> is read back by \<open>decode\<close> as the key and field it was made from,
  whatever the checksum function is.
\<close>

theorem record_roundtrip:
  assumes "storable_key k" and "storable_field f"
  shows "decode X (encode X k f) = Inr (k, f)"
  using decode_live_slot [of k f "DBDecoder_new (encode X k f)" X "[]"] assms
  by (auto simp: decode_def encode_eq hm_iter_def hm_keys_def hm_insert_def hm_new_def
      List.map_filter_simps)

theorem record_roundtrip_witness:
  "decode (documented_crates (\<lambda>bs. of_nat (length bs)))
     (encode (documented_crates (\<lambda>bs. of_nat (length bs))) (Key [107]) (Field.Raw [1, 2]))
   = Inr (Key [107], Field.Raw [1, 2])"
  by (rule record_roundtrip) (simp_all add: storable_key_def storable_field_def Key_len_def)

text \<open>
  C18. A record whose checksum does not match its lengths, key and payload is rejected as corrupted,
  before its payload is interpreted and whatever follows it in the file.
\<close>

theorem corrupted_record_rejected:
  assumes "storable_key k" and "length p < 2 ^ 32"
    and "crc_checksum X (record_summed [0, 0, 0, 0] (Key_as_bytes k) p) \<noteq> crc"
  shows "decode X (RECORD_MAGIC_NUMBER @ record_summed (to_le_bytes 4 crc) (Key_as_bytes k) p @ rest)
    = Inl (Err (CorruptedRecord (ascii ''Checksum Mismatch'')))"
  using decode_corrupted_record [OF assms(1,2) _ assms(3),
      of "DBDecoder_new (RECORD_MAGIC_NUMBER @ record_summed (to_le_bytes 4 crc) (Key_as_bytes k) p @ rest)" rest]
  by (simp add: decode_def)

theorem corrupted_record_rejected_witness:
  "decode (documented_crates (\<lambda>bs. ucast (last bs)))
     (RECORD_MAGIC_NUMBER @ record_summed (to_le_bytes 4 (5 :: u32)) (Key_as_bytes (Key [107])) [0, 6] @ [])
   = Inl (Err (CorruptedRecord (ascii ''Checksum Mismatch'')))"
  by (rule corrupted_record_rejected)
    (simp_all add: storable_key_def Key_len_def documented_crates_def record_summed_def)

lemma map_Live_bytes:
  "concat (map (\<lambda>(k, f). record_bytes X k f) kfs) = slots_bytes X (map (\<lambda>(k, f). Live k f) kfs)"
  by (induction kfs) auto

lemma slots_map_Live: "slots_map (map (\<lambda>(k, f). Live k f) kfs) k = map_of (rev kfs) k"
  by (induction kfs) (auto simp: map_add_def split: option.split)

lemma trim_name_field:
  assumes "utf8_valid name" and "length name \<le> 64" and "name \<noteq> [] \<Longrightarrow> hd name \<noteq> 0 \<and> last name \<noteq> 0"
  shows "trim_nul (from_utf8_lossy (name_field name)) = name"
proof -
  have "utf8_valid (name @ replicate (64 - length name) 0)"
    using assms(1) by (simp add: utf8_valid_append utf8_valid_ascii_list)
  then show ?thesis
    using assms(2,3) by (simp add: name_field_def from_utf8_lossy_valid trim_nul_padded)
qed

text \<open>
  C10. A whole data file written by \<open>encode_db_file\<close>, in whatever order the hash map is iterated, is
  read back as the same map with the record count and the name that were written, for every valid
  name (UTF-8, at most 64 bytes, no NUL at either end).
\<close>

theorem data_file_roundtrip:
  assumes "byteorder X" and "hash_order ord" and "hm_wf m"
    and "\<And>k f. hm_get m k = Some f \<Longrightarrow> storable_key k \<and> storable_field f"
    and "utf8_valid name" and "length name \<le> 64" and "name \<noteq> [] \<Longrightarrow> hd name \<noteq> 0 \<and> last name \<noteq> 0"
  shows "\<exists>m'. decode_db X (DBEncoder_finish (DBEncoder_encode_db_file X ord m
        \<lparr>meta_version = v, meta_record_count = rc, meta_name = name\<rparr> DBEncoder_new))
      = Inr (m', \<lparr>meta_version = DB_VERSION, meta_record_count = rc, meta_name = name\<rparr>)
    \<and> hm_get m' = hm_get m"
proof -
  let ?kfs = "hm_iter ord m" and ?ss = "map (\<lambda>(k, f). Live k f) (hm_iter ord m)"
  have "\<forall>s \<in> set ?ss. storable_slot s"
    using assms(4) set_hm_iter [OF assms(2), of _ _ m] by auto
  from byteorder.decode_db_slots [OF assms(1) _ this, of "name_field name" rc]
  have "decode_db X (header_bytes rc (name_field name) @ slots_bytes X ?ss)
    = Inr (fold load_slot ?ss hm_new, \<lparr>meta_version = DB_VERSION, meta_record_count = rc, meta_name = name\<rparr>)"
    using assms(5-7) by (simp add: trim_name_field)
  moreover have "hm_get (fold load_slot ?ss hm_new) k = hm_get m k" for k
    using map_of_rev_distinct [OF distinct_hm_iter [OF assms(2,3)]] hm_get_hm_iter [OF assms(2,3), of k]
    by (simp add: hm_get_load_slots slots_map_Live split: option.split)
  ultimately show ?thesis
    by (auto simp: DBEncoder_finish_def DBEncoder_file DBEncoder_new_def map_Live_bytes)
qed

theorem data_file_roundtrip_witness:
  "\<exists>m'. decode_db (documented_crates (\<lambda>_. 7)) (DBEncoder_finish (DBEncoder_encode_db_file
        (documented_crates (\<lambda>_. 7)) rev [(Key [107], Field.Raw [1]), (Key [108], Field.Raw [])]
        \<lparr>meta_version = 1, meta_record_count = 2, meta_name = [110]\<rparr> DBEncoder_new))
      = Inr (m', \<lparr>meta_version = DB_VERSION, meta_record_count = 2, meta_name = [110]\<rparr>)
    \<and> hm_get m' = hm_get [(Key [107], Field.Raw [1]), (Key [108], Field.Raw [])]"
  by (rule data_file_roundtrip [OF documented.byteorder_axioms hash_order_instances(2)])
    (auto simp: hm_wf_def hm_get_def storable_key_def storable_field_def Key_len_def
      utf8_valid_ascii_list split: if_split_asm)

text \<open>
  C19. A data file that ends inside a record or a tombstone is rejected with an end-of-file error,
  wherever the cut is: no prefix of a record is taken for a shorter one.
\<close>

theorem torn_data_file_rejected:
  assumes "byteorder X" and "length name64 = 64" and "\<forall>s \<in> set (ss @ [s]). storable_slot s"
    and "0 < n" and "n < length (slot_bytes X s)"
  shows "decode_db X (header_bytes rc name64 @ slots_bytes X ss @ take n (slot_bytes X s))
    = Inl (Err (Io eof_error))"
  by (rule byteorder.decode_db_torn [OF assms(1,2), where s = s and zs = "drop n (slot_bytes X s)"])
    (use assms in simp_all)

theorem torn_data_file_rejected_witness:
  "decode_db (documented_crates (\<lambda>_. 7)) (header_bytes 1 (replicate 64 0)
      @ slots_bytes (documented_crates (\<lambda>_. 7)) [Dead 1 2] @ take 15 (slot_bytes (documented_crates (\<lambda>_. 7)) (Live (Key [107]) (Field.Raw [1]))))
    = Inl (Err (Io eof_error))"
  by (rule torn_data_file_rejected [OF documented.byteorder_axioms])
    (simp_all add: storable_key_def storable_field_def Key_len_def length_record_bytes)

text \<open>
  C11. The tombstone that \<open>DBDeleter\<close> builds from a record's lengths is as long as the record, and a
  file in which it has replaced the record reads as the file without that record: no other record
  is disturbed, and an older record of the same key, if there is one, counts again.
\<close>

theorem tombstone_erases_one_record:
  assumes "byteorder X" and "length name64 = 64" and "\<forall>s \<in> set (pre @ Live k f # post). storable_slot s"
    and "tomb = DBDeleter_finish (DBDeleter_get_deleted_field
      (DBDeleter_set_field_len (of_nat (length (bytes_from_field f)))
        (DBDeleter_set_key_len (of_nat (Key_len k)) DBDeleter_new)))"
  shows "length tomb = length (encode X k f)
    \<and> (\<exists>m meta. decode_db X (header_bytes rc name64 @ slots_bytes X pre @ tomb @ slots_bytes X post) = Inr (m, meta)
        \<and> (\<forall>l. hm_get m l = slots_map (pre @ post) l))"
proof -
  let ?dead = "Dead (of_nat (Key_len k)) (of_nat (length (bytes_from_field f)))"
  have tomb: "tomb = slot_bytes X ?dead"
    unfolding assms(4) by (simp add: DBDeleter_tombstone DBDeleter_new_def)
  have "storable_key k" "storable_field f" using assms(3) by auto
  then have "length tomb = length (encode X k f)"
    using storable_key_len [of k] storable_field_len [of f]
    by (simp add: tomb length_tombstone_bytes encode_eq length_record_bytes Key_len_def)
  moreover have "\<forall>s \<in> set (pre @ ?dead # post). storable_slot s" using assms(3) by auto
  from byteorder.decode_db_slots [OF assms(1,2) this, of rc]
  have "\<exists>m meta. decode_db X (header_bytes rc name64 @ slots_bytes X pre @ tomb @ slots_bytes X post) = Inr (m, meta)
        \<and> (\<forall>l. hm_get m l = slots_map (pre @ post) l)"
    by (auto simp: tomb hm_get_load_slots simp del: fold_append split: option.split)
  ultimately show ?thesis by blast
qed


theorem tombstone_erases_one_record_witness:
  "\<exists>m meta. decode_db (documented_crates (\<lambda>_. 7)) (header_bytes 1 (replicate 64 0)
      @ slots_bytes (documented_crates (\<lambda>_. 7)) [Live (Key [107]) (Field.Raw [1])]
      @ DBDeleter_finish (DBDeleter_get_deleted_field (DBDeleter_set_field_len (of_nat (length (bytes_from_field (Field.Raw [2]))))
        (DBDeleter_set_key_len (of_nat (Key_len (Key [107]))) DBDeleter_new)))
      @ slots_bytes (documented_crates (\<lambda>_. 7)) []) = Inr (m, meta)
    \<and> hm_get m (Key [107]) = Some (Field.Raw [1])"
  using tombstone_erases_one_record [OF documented.byteorder_axioms [of "\<lambda>_. 7"],
      of "replicate 64 0" "[Live (Key [107]) (Field.Raw [1])]" "Key [107]" "Field.Raw [2]" "[]" _ 1]
  by (fastforce simp: storable_key_def storable_field_def Key_len_def)

end
