(* ===== verification/Index_Codec.thy ===== *)
theory Index_Codec
  imports Db_Decoder
begin

text \<open>
  The index of a data file: \<open>IndexEntry\<close> of \<^verbatim>\<open>src/db/db.rs\<close>; \<open>IndexEncoder\<close> and
  \<open>IndexDecoder\<close>, the \<open>.dbidx\<close> format, and \<open>IndexFromDBDecoder\<close>, which rebuilds the index
  from the data file, of \<^verbatim>\<open>src/db/codec.rs\<close>. The lemmas state both as the map \<open>slots_index\<close>
  from a key to the place of its last live record.
\<close>

section \<open>Index entries\<close>

record IndexEntry =
  ie_offset :: u64
  ie_key_len :: u16
  ie_field_len :: u32

section \<open>IndexDecoder\<close>

record IndexDecoder =
  id_cursor :: cursor
  id_index :: "IndexEntry hashmap"
  id_last_index_key :: bytes
  id_last_idx :: u64
  id_last_key_len :: u16
  id_last_field_len :: u32

definition IndexDecoder_new :: "bytes \<Rightarrow> IndexDecoder" where
  "IndexDecoder_new bs =
     \<lparr>id_cursor = Cursor_new bs, id_index = hm_new, id_last_index_key = [], id_last_idx = 0,
      id_last_key_len = 0, id_last_field_len = 0\<rparr>"

definition IndexDecoder_read_index :: "third_party \<Rightarrow> IndexDecoder \<Rightarrow> IndexDecoder PDBResult" where
  "IndexDecoder_read_index X d =
     and_then (read_u64_le X (id_cursor d)) (\<lambda>(index, c).
       Inr (d\<lparr>id_cursor := c, id_last_idx := index\<rparr>))"

definition IndexDecoder_read_key_len :: "third_party \<Rightarrow> IndexDecoder \<Rightarrow> IndexDecoder PDBResult" where
  "IndexDecoder_read_key_len X d =
     and_then (read_u16_le X (id_cursor d)) (\<lambda>(key_len, c).
       Inr (d\<lparr>id_cursor := c, id_last_key_len := key_len\<rparr>))"

definition IndexDecoder_read_key :: "IndexDecoder \<Rightarrow> IndexDecoder PDBResult" where
  "IndexDecoder_read_key d =
     and_then (read_exact (unat (id_last_key_len d)) (id_cursor d)) (\<lambda>(key, c).
       Inr (d\<lparr>id_cursor := c, id_last_index_key := key\<rparr>))"

definition IndexDecoder_read_field_len :: "third_party \<Rightarrow> IndexDecoder \<Rightarrow> IndexDecoder PDBResult" where
  "IndexDecoder_read_field_len X d =
     and_then (read_u32_le X (id_cursor d)) (\<lambda>(field_len, c).
       Inr (d\<lparr>id_cursor := c, id_last_field_len := field_len\<rparr>))"

definition IndexDecoder_decode_index_entry :: "third_party \<Rightarrow> IndexDecoder \<Rightarrow> IndexDecoder PDBResult" where
  "IndexDecoder_decode_index_entry X d =
     and_then (IndexDecoder_read_key_len X d) (\<lambda>d.
     and_then (IndexDecoder_read_key d) (\<lambda>d.
     and_then (IndexDecoder_read_field_len X d) (\<lambda>d.
     and_then (IndexDecoder_read_index X d) (\<lambda>d.
       let entry = \<lparr>ie_offset = id_last_idx d, ie_key_len = id_last_key_len d,
                    ie_field_len = id_last_field_len d\<rparr>
       in Inr (d\<lparr>id_index := hm_insert (Key (id_last_index_key d)) entry (id_index d)\<rparr>)))))"

lemmas IndexDecoder_defs =
  IndexDecoder_read_index_def IndexDecoder_read_key_len_def IndexDecoder_read_key_def
  IndexDecoder_read_field_len_def IndexDecoder_decode_index_entry_def

lemma IndexDecoder_reads_InrD:
  "IndexDecoder_read_key_len X d = Inr d' \<Longrightarrow>
     2 \<le> length (cur_rest (id_cursor d)) \<and> id_cursor d' = advance 2 (id_cursor d)"
  "IndexDecoder_read_key d = Inr d' \<Longrightarrow>
     id_cursor d' = advance (unat (id_last_key_len d)) (id_cursor d)"
  "IndexDecoder_read_field_len X d = Inr d' \<Longrightarrow> id_cursor d' = advance 4 (id_cursor d)"
  "IndexDecoder_read_index X d = Inr d' \<Longrightarrow> id_cursor d' = advance 8 (id_cursor d)"
  by (auto simp: IndexDecoder_defs seq_iff dest!: read_int_InrD read_exact_InrD)

lemma IndexDecoder_decode_entry_advances:
  assumes "IndexDecoder_decode_index_entry X d = Inr d'"
  shows "length (cur_rest (id_cursor d')) < length (cur_rest (id_cursor d))"
proof -
  obtain d1 d2 d3 d4 where r: "IndexDecoder_read_key_len X d = Inr d1"
    "IndexDecoder_read_key d1 = Inr d2" "IndexDecoder_read_field_len X d2 = Inr d3"
    "IndexDecoder_read_index X d3 = Inr d4" "id_cursor d' = id_cursor d4"
    using assms unfolding IndexDecoder_decode_index_entry_def seq_iff
    by (auto simp: seq_iff Let_def)
  from IndexDecoder_reads_InrD(1) [OF r(1)] IndexDecoder_reads_InrD(2) [OF r(2)]
    IndexDecoder_reads_InrD(3) [OF r(3)] IndexDecoder_reads_InrD(4) [OF r(4)] r(5)
  show ?thesis by auto
qed

function IndexDecoder_decode_index_file :: "third_party \<Rightarrow> IndexDecoder \<Rightarrow> IndexDecoder PDBResult" where
  "IndexDecoder_decode_index_file X d =
     (if has_more (id_cursor d)
      then and_then (IndexDecoder_decode_index_entry X d) (IndexDecoder_decode_index_file X)
      else Inr d)"
  by pat_completeness auto
termination
  by (relation "measure (\<lambda>(X, d). length (cur_rest (id_cursor d)))")
    (simp_all add: IndexDecoder_decode_entry_advances)

declare IndexDecoder_decode_index_file.simps [simp del]

definition IndexDecoder_finish :: "IndexDecoder \<Rightarrow> IndexEntry hashmap PDBResult" where
  "IndexDecoder_finish d = Inr (id_index d)"

section \<open>IndexFromDBDecoder\<close>

record IndexFromDBDecoder =
  fd_cursor :: cursor
  fd_index :: "IndexEntry hashmap"
  fd_last_key_len :: u16
  fd_last_field_len :: u32
  fd_last_key :: bytes
  fd_last_index :: u64
  fd_deleted :: bool

definition IndexFromDBDecoder_new :: "bytes \<Rightarrow> IndexFromDBDecoder" where
  "IndexFromDBDecoder_new bs =
     \<lparr>fd_cursor = Cursor_new bs, fd_index = hm_new, fd_last_key_len = 0, fd_last_field_len = 0,
      fd_last_key = [], fd_last_index = 0, fd_deleted = False\<rparr>"

definition IndexFromDBDecoder_read_magic_number :: "IndexFromDBDecoder \<Rightarrow> IndexFromDBDecoder PDBResult" where
  "IndexFromDBDecoder_read_magic_number d =
     and_then (read_exact 4 (fd_cursor d)) (\<lambda>(m, c).
       if m = [0, 0, 0, 0] then Inr (d\<lparr>fd_cursor := c, fd_deleted := True\<rparr>)
       else if m = RECORD_MAGIC_NUMBER then Inr (d\<lparr>fd_cursor := c, fd_deleted := False\<rparr>)
       else Inl (Err InvalidMagicBytes))"

definition IndexFromDBDecoder_read_key_len :: "IndexFromDBDecoder \<Rightarrow> IndexFromDBDecoder PDBResult" where
  "IndexFromDBDecoder_read_key_len d =
     and_then (read_exact 2 (fd_cursor d)) (\<lambda>(bs, c).
       Inr (d\<lparr>fd_cursor := c, fd_last_key_len := from_le_bytes bs\<rparr>))"

definition IndexFromDBDecoder_read_field_len :: "IndexFromDBDecoder \<Rightarrow> IndexFromDBDecoder PDBResult" where
  "IndexFromDBDecoder_read_field_len d =
     and_then (read_exact 4 (fd_cursor d)) (\<lambda>(bs, c).
       Inr (d\<lparr>fd_cursor := c, fd_last_field_len := from_le_bytes bs\<rparr>))"

definition IndexFromDBDecoder_skip_crc :: "IndexFromDBDecoder \<Rightarrow> IndexFromDBDecoder PDBResult" where
  "IndexFromDBDecoder_skip_crc d =
     Inr (d\<lparr>fd_cursor := set_position (cur_pos (fd_cursor d) + 4) (fd_cursor d)\<rparr>)"

definition IndexFromDBDecoder_read_key :: "IndexFromDBDecoder \<Rightarrow> IndexFromDBDecoder PDBResult" where
  "IndexFromDBDecoder_read_key d =
     and_then (read_exact (unat (fd_last_key_len d)) (fd_cursor d)) (\<lambda>(bs, c).
       Inr (d\<lparr>fd_cursor := c, fd_last_key := bs\<rparr>))"

definition IndexFromDBDecoder_skip_field :: "IndexFromDBDecoder \<Rightarrow> IndexFromDBDecoder PDBResult" where
  "IndexFromDBDecoder_skip_field d =
     Inr (d\<lparr>fd_cursor :=
       set_position (cur_pos (fd_cursor d) + unat (fd_last_field_len d)) (fd_cursor d)\<rparr>)"

definition IndexFromDBDecoder_skip_metadata_key :: "IndexFromDBDecoder \<Rightarrow> IndexFromDBDecoder PDBResult" where
  "IndexFromDBDecoder_skip_metadata_key d =
     Inr (d\<lparr>fd_cursor := set_position (cur_pos (fd_cursor d) + 8) (fd_cursor d)\<rparr>)"

definition IndexFromDBDecoder_decode_db_header ::
    "third_party \<Rightarrow> IndexFromDBDecoder \<Rightarrow> IndexFromDBDecoder PDBResult" where
  "IndexFromDBDecoder_decode_db_header X d =
     (let d = d\<lparr>fd_cursor := set_position 0 (fd_cursor d)\<rparr> in
      and_then (IndexFromDBDecoder_skip_metadata_key d) (\<lambda>d.
      and_then (read_u64_le X (fd_cursor d)) (\<lambda>(_, c).
      and_then (IndexFromDBDecoder_skip_metadata_key (d\<lparr>fd_cursor := c\<rparr>)) (\<lambda>d.
      and_then (read_u8 X (fd_cursor d)) (\<lambda>(_, c).
      and_then (read_u8 X c) (\<lambda>(_, c).
      and_then (IndexFromDBDecoder_skip_metadata_key (d\<lparr>fd_cursor := c\<rparr>)) (\<lambda>d.
      and_then (read_u64_le X (fd_cursor d)) (\<lambda>(_, c).
      and_then (IndexFromDBDecoder_skip_metadata_key (d\<lparr>fd_cursor := c\<rparr>)) (\<lambda>d.
      Inr (d\<lparr>fd_cursor := set_position (cur_pos (fd_cursor d) + 64) (fd_cursor d)\<rparr>))))))))))"

definition IndexFromDBDecoder_set_last_index :: "IndexFromDBDecoder \<Rightarrow> IndexFromDBDecoder PDBResult" where
  "IndexFromDBDecoder_set_last_index d = Inr (d\<lparr>fd_last_index := of_nat (cur_pos (fd_cursor d))\<rparr>)"

definition IndexFromDBDecoder_index_push :: "IndexFromDBDecoder \<Rightarrow> IndexFromDBDecoder PDBResult" where
  "IndexFromDBDecoder_index_push d =
     (if fd_deleted d then Inr d
      else if fd_last_key d = [] then Inl (Err InvalidIndexEntry)
      else
        let entry = \<lparr>ie_offset = fd_last_index d, ie_key_len = fd_last_key_len d,
                     ie_field_len = fd_last_field_len d\<rparr>
        in Inr (d\<lparr>fd_index := hm_insert (Key (fd_last_key d)) entry (fd_index d)\<rparr>))"

text \<open>The body and the loop of \<open>decode_index_from_file\<close>.\<close>

definition IndexFromDBDecoder_decode_slot :: "IndexFromDBDecoder \<Rightarrow> IndexFromDBDecoder PDBResult" where
  "IndexFromDBDecoder_decode_slot d =
     and_then (IndexFromDBDecoder_set_last_index d) (\<lambda>d.
     and_then (IndexFromDBDecoder_read_magic_number d) (\<lambda>d.
     and_then (IndexFromDBDecoder_read_key_len d) (\<lambda>d.
     and_then (IndexFromDBDecoder_read_field_len d) (\<lambda>d.
     and_then (IndexFromDBDecoder_skip_crc d) (\<lambda>d.
     and_then (IndexFromDBDecoder_read_key d) (\<lambda>d.
     and_then (IndexFromDBDecoder_skip_field d) IndexFromDBDecoder_index_push))))))"

lemmas IndexFromDBDecoder_step_defs =
  IndexFromDBDecoder_set_last_index_def IndexFromDBDecoder_read_magic_number_def
  IndexFromDBDecoder_read_key_len_def IndexFromDBDecoder_read_field_len_def
  IndexFromDBDecoder_skip_crc_def IndexFromDBDecoder_read_key_def
  IndexFromDBDecoder_skip_field_def IndexFromDBDecoder_index_push_def

lemma IndexFromDBDecoder_steps_InrD:
  "IndexFromDBDecoder_set_last_index d = Inr d' \<Longrightarrow> fd_cursor d' = fd_cursor d"
  "IndexFromDBDecoder_read_magic_number d = Inr d' \<Longrightarrow>
     4 \<le> length (cur_rest (fd_cursor d)) \<and> fd_cursor d' = advance 4 (fd_cursor d)"
  "IndexFromDBDecoder_read_key_len d = Inr d' \<Longrightarrow> fd_cursor d' = advance 2 (fd_cursor d)"
  "IndexFromDBDecoder_read_field_len d = Inr d' \<Longrightarrow> fd_cursor d' = advance 4 (fd_cursor d)"
  "IndexFromDBDecoder_skip_crc d = Inr d' \<Longrightarrow> fd_cursor d' = advance 4 (fd_cursor d)"
  "IndexFromDBDecoder_read_key d = Inr d' \<Longrightarrow>
     fd_cursor d' = advance (unat (fd_last_key_len d)) (fd_cursor d)"
  "IndexFromDBDecoder_skip_field d = Inr d' \<Longrightarrow>
     fd_cursor d' = advance (unat (fd_last_field_len d)) (fd_cursor d)"
  "IndexFromDBDecoder_index_push d = Inr d' \<Longrightarrow> fd_cursor d' = fd_cursor d"
  by (auto simp: IndexFromDBDecoder_step_defs seq_iff set_position_plus Let_def
      split: if_split_asm dest!: read_exact_InrD)

lemma IndexFromDBDecoder_decode_slot_advances:
  assumes "IndexFromDBDecoder_decode_slot d = Inr d'"
  shows "length (cur_rest (fd_cursor d')) < length (cur_rest (fd_cursor d))"
proof -
  obtain d1 d2 d3 d4 d5 d6 d7 where r: "IndexFromDBDecoder_set_last_index d = Inr d1"
    "IndexFromDBDecoder_read_magic_number d1 = Inr d2"
    "IndexFromDBDecoder_read_key_len d2 = Inr d3" "IndexFromDBDecoder_read_field_len d3 = Inr d4"
    "IndexFromDBDecoder_skip_crc d4 = Inr d5" "IndexFromDBDecoder_read_key d5 = Inr d6"
    "IndexFromDBDecoder_skip_field d6 = Inr d7" "IndexFromDBDecoder_index_push d7 = Inr d'"
    using assms unfolding IndexFromDBDecoder_decode_slot_def seq_iff by blast
  show ?thesis
    using IndexFromDBDecoder_steps_InrD(1) [OF r(1)] IndexFromDBDecoder_steps_InrD(2) [OF r(2)]
      IndexFromDBDecoder_steps_InrD(3) [OF r(3)] IndexFromDBDecoder_steps_InrD(4) [OF r(4)]
      IndexFromDBDecoder_steps_InrD(5) [OF r(5)] IndexFromDBDecoder_steps_InrD(6) [OF r(6)]
      IndexFromDBDecoder_steps_InrD(7) [OF r(7)] IndexFromDBDecoder_steps_InrD(8) [OF r(8)]
    by auto
qed

function IndexFromDBDecoder_decode_slots :: "IndexFromDBDecoder \<Rightarrow> IndexFromDBDecoder PDBResult" where
  "IndexFromDBDecoder_decode_slots d =
     (if has_more (fd_cursor d)
      then and_then (IndexFromDBDecoder_decode_slot d) IndexFromDBDecoder_decode_slots
      else Inr d)"
  by pat_completeness auto
termination
  by (relation "measure (\<lambda>d. length (cur_rest (fd_cursor d)))")
    (simp_all add: IndexFromDBDecoder_decode_slot_advances)

declare IndexFromDBDecoder_decode_slots.simps [simp del]

definition IndexFromDBDecoder_decode_index_from_file ::
    "third_party \<Rightarrow> IndexFromDBDecoder \<Rightarrow> IndexFromDBDecoder PDBResult" where
  "IndexFromDBDecoder_decode_index_from_file X d =
     and_then (IndexFromDBDecoder_decode_db_header X d) IndexFromDBDecoder_decode_slots"

definition IndexFromDBDecoder_finish :: "IndexFromDBDecoder \<Rightarrow> IndexEntry hashmap PDBResult" where
  "IndexFromDBDecoder_finish d = Inr (fd_index d)"

section \<open>IndexEncoder\<close>

record IndexEncoder =
  ix_buffer :: bytes

definition IndexEncoder_new :: IndexEncoder where
  "IndexEncoder_new = \<lparr>ix_buffer = []\<rparr>"

definition IndexEncoder_write :: "bytes \<Rightarrow> IndexEncoder \<Rightarrow> IndexEncoder" where
  "IndexEncoder_write buffer e = e\<lparr>ix_buffer := ix_buffer e @ buffer\<rparr>"

definition IndexEncoder_encode_key_len :: "u16 \<Rightarrow> IndexEncoder \<Rightarrow> IndexEncoder" where
  "IndexEncoder_encode_key_len len e = IndexEncoder_write (to_le_bytes 2 len) e"

definition IndexEncoder_encode_field_len :: "u32 \<Rightarrow> IndexEncoder \<Rightarrow> IndexEncoder" where
  "IndexEncoder_encode_field_len len e = IndexEncoder_write (to_le_bytes 4 len) e"

definition IndexEncoder_encode_key :: "Key \<Rightarrow> IndexEncoder \<Rightarrow> IndexEncoder" where
  "IndexEncoder_encode_key key e = IndexEncoder_write (Key_as_bytes key) e"

definition IndexEncoder_encode_index :: "u64 \<Rightarrow> IndexEncoder \<Rightarrow> IndexEncoder" where
  "IndexEncoder_encode_index idx e = IndexEncoder_write (to_le_bytes 8 idx) e"

definition IndexEncoder_encode_index_entry :: "Key \<Rightarrow> IndexEntry \<Rightarrow> IndexEncoder \<Rightarrow> IndexEncoder" where
  "IndexEncoder_encode_index_entry key index e =
     (let e = IndexEncoder_encode_key_len (ie_key_len index) e;
          e = IndexEncoder_encode_key key e;
          e = IndexEncoder_encode_field_len (ie_field_len index) e
      in IndexEncoder_encode_index (ie_offset index) e)"

definition IndexEncoder_encode_index_file ::
    "(Key list \<Rightarrow> Key list) \<Rightarrow> IndexEntry hashmap \<Rightarrow> IndexEncoder \<Rightarrow> IndexEncoder" where
  "IndexEncoder_encode_index_file ord index e =
     fold (\<lambda>(key, idx) e. IndexEncoder_encode_index_entry key idx e) (hm_iter ord index) e"

definition IndexEncoder_finish :: "IndexEncoder \<Rightarrow> bytes" where
  "IndexEncoder_finish e = ix_buffer e"

lemmas IndexEncoder_defs =
  IndexEncoder_new_def IndexEncoder_write_def IndexEncoder_encode_key_len_def
  IndexEncoder_encode_field_len_def IndexEncoder_encode_key_def IndexEncoder_encode_index_def
  IndexEncoder_encode_index_entry_def IndexEncoder_finish_def

section \<open>The index file\<close>

definition index_entry_bytes :: "Key \<times> IndexEntry \<Rightarrow> bytes" where
  "index_entry_bytes ke = (case ke of (k, e) \<Rightarrow>
     to_le_bytes 2 (ie_key_len e) @ Key_as_bytes k @ to_le_bytes 4 (ie_field_len e)
       @ to_le_bytes 8 (ie_offset e))"

text \<open>Index entries whose recorded key length is that of their key.\<close>

definition sized_entry :: "Key \<times> IndexEntry \<Rightarrow> bool" where
  "sized_entry ke = (unat (ie_key_len (snd ke)) = Key_len (fst ke))"

definition index_file_bytes :: "(Key list \<Rightarrow> Key list) \<Rightarrow> IndexEntry hashmap \<Rightarrow> bytes" where
  "index_file_bytes ord index = concat (map index_entry_bytes (hm_iter ord index))"

lemma IndexEncoder_file:
  "IndexEncoder_finish (IndexEncoder_encode_index_file ord index IndexEncoder_new)
     = index_file_bytes ord index"
proof -
  have "ix_buffer (fold (\<lambda>(key, idx) e. IndexEncoder_encode_index_entry key idx e) kes e)
      = ix_buffer e @ concat (map index_entry_bytes kes)" for kes e
    by (induction kes arbitrary: e)
      (auto simp: IndexEncoder_defs index_entry_bytes_def Let_def)
  then show ?thesis
    by (simp add: IndexEncoder_encode_index_file_def IndexEncoder_finish_def IndexEncoder_new_def
        index_file_bytes_def)
qed

lemma IndexEntry_eta [simp]:
  "\<lparr>ie_offset = ie_offset e, ie_key_len = ie_key_len e, ie_field_len = ie_field_len e\<rparr> = e"
  by simp

context byteorder
begin

lemma decode_index_entry_bytes:
  assumes "sized_entry ke" and rest: "cur_rest (id_cursor d) = index_entry_bytes ke @ ys"
  shows "\<exists>d'. IndexDecoder_decode_index_entry X d = Inr d'
    \<and> id_cursor d' = advance (length (index_entry_bytes ke)) (id_cursor d)
    \<and> id_index d' = hm_insert (fst ke) (snd ke) (id_index d)"
  using assms(1)
  by (cases ke) (simp add: IndexDecoder_defs read_simps rest index_entry_bytes_def sized_entry_def
      Key_len_def Let_def)

end

sublocale byteorder \<subseteq> index_stream: entry_stream id_cursor id_index
    "IndexDecoder_decode_index_entry X" "IndexDecoder_decode_index_file X"
    index_entry_bytes sized_entry "\<lambda>p ke m. hm_insert (fst ke) (snd ke) m"
proof (unfold_locales, goal_cases)
  case (1 ke)
  show ?case by (simp add: index_entry_bytes_def split: prod.split)
next
  case (2 ke d ys)
  then show ?case by (rule decode_index_entry_bytes)
next
  case (3 d)
  show ?case by (subst IndexDecoder_decode_index_file.simps) (rule refl)
qed

definition decode_index :: "third_party \<Rightarrow> bytes \<Rightarrow> IndexEntry hashmap PDBResult" where
  "decode_index X bs =
     and_then (IndexDecoder_decode_index_file X (IndexDecoder_new bs)) IndexDecoder_finish"

lemma hm_get_insert_all:
  "hm_get (fold (\<lambda>ke m. hm_insert (fst ke) (snd ke) m) kes m) k
     = (case map_of (rev kes) k of None \<Rightarrow> hm_get m k | Some v \<Rightarrow> Some v)"
  by (induction kes rule: rev_induct) (auto split: option.split)

lemma hm_wf_insert_all: "hm_wf m \<Longrightarrow> hm_wf (fold (\<lambda>ke m. hm_insert (fst ke) (snd ke) m) kes m)"
  by (induction kes arbitrary: m) auto

context byteorder
begin

lemma decode_index_file_bytes:
  assumes "hash_order ord" and "hm_wf index"
    and "\<And>k e. hm_get index k = Some e \<Longrightarrow> sized_entry (k, e)"
  shows "\<exists>m. decode_index X (index_file_bytes ord index) = Inr m \<and> hm_wf m
    \<and> (\<forall>k. hm_get m k = hm_get index k)"
proof -
  let ?kes = "hm_iter ord index"
  have "\<forall>ke \<in> set ?kes. sized_entry ke"
    using assms(3) set_hm_iter [OF assms(1), of _ _ index] by auto
  then obtain d' where d': "IndexDecoder_decode_index_file X (IndexDecoder_new (index_file_bytes ord index)) = Inr d'"
    "id_index d' = fold (\<lambda>ke m. hm_insert (fst ke) (snd ke) m) ?kes hm_new"
    using index_stream.loop_all [of ?kes "IndexDecoder_new (index_file_bytes ord index)"]
    by (auto simp: IndexDecoder_new_def index_file_bytes_def add_all_fold)
  have "hm_get (id_index d') k = hm_get index k" for k
    using assms(1,2)
    by (simp add: d' hm_get_insert_all map_of_rev_distinct distinct_hm_iter hm_get_hm_iter
        split: option.split)
  then show ?thesis
    using d' by (auto simp: decode_index_def IndexDecoder_finish_def hm_wf_insert_all)
qed

end

section \<open>Rebuilding the index from the data file\<close>

definition entry_at :: "nat \<Rightarrow> Key \<Rightarrow> Field \<Rightarrow> IndexEntry" where
  "entry_at p k f = \<lparr>ie_offset = of_nat p, ie_key_len = of_nat (Key_len k),
     ie_field_len = of_nat (length (bytes_from_field f))\<rparr>"

fun index_slot :: "nat \<Rightarrow> slot \<Rightarrow> IndexEntry hashmap \<Rightarrow> IndexEntry hashmap" where
  "index_slot p (Live k f) m = hm_insert k (entry_at p k f) m"
| "index_slot p (Dead kl fl) m = m"

definition index_slots :: "third_party \<Rightarrow> slot list \<Rightarrow> IndexEntry hashmap" where
  "index_slots X ss = add_all (slot_bytes X) index_slot 114 ss hm_new"

text \<open>The place of the last live record of a key.\<close>

definition slots_index :: "third_party \<Rightarrow> slot list \<Rightarrow> Key \<Rightarrow> IndexEntry option" where
  "slots_index X ss k = hm_get (index_slots X ss) k"

fun rebuildable_slot :: "slot \<Rightarrow> bool" where
  "rebuildable_slot (Live k f) = (storable_key k \<and> storable_field f \<and> \<not> Key_is_empty k)"
| "rebuildable_slot (Dead kl fl) = True"

lemma rebuild_live_slot:
  assumes "storable_key k" and "storable_field f" and "\<not> Key_is_empty k"
    and rest: "cur_rest (fd_cursor d) = record_bytes X k f @ ys"
  shows "\<exists>d'. IndexFromDBDecoder_decode_slot d = Inr d'
    \<and> fd_cursor d' = advance (length (record_bytes X k f)) (fd_cursor d)
    \<and> fd_index d' = hm_insert k (entry_at (cur_pos (fd_cursor d)) k f) (fd_index d)"
  using storable_key_len [OF assms(1)] storable_field_len [OF assms(2)] assms(3)
  by (simp add: IndexFromDBDecoder_decode_slot_def IndexFromDBDecoder_step_defs read_simps rest
      record_bytes_def record_summed_def Let_def RECORD_MAGIC_NUMBER_def from_to_le_bytes
      Key_len_def set_position_plus Key_is_empty_def entry_at_def)

lemma rebuild_dead_slot:
  assumes rest: "cur_rest (fd_cursor d) = tombstone_bytes kl fl @ ys"
  shows "\<exists>d'. IndexFromDBDecoder_decode_slot d = Inr d'
    \<and> fd_cursor d' = advance (length (tombstone_bytes kl fl)) (fd_cursor d)
    \<and> fd_index d' = fd_index d"
  by (simp add: IndexFromDBDecoder_decode_slot_def IndexFromDBDecoder_step_defs read_simps rest
      tombstone_bytes_def from_to_le_bytes set_position_plus)

interpretation rebuild_stream: entry_stream fd_cursor fd_index
    IndexFromDBDecoder_decode_slot IndexFromDBDecoder_decode_slots
    "slot_bytes X" rebuildable_slot index_slot
  for X
proof (unfold_locales, goal_cases)
  case (1 s)
  show ?case by simp
next
  case (2 s d ys)
  then show ?case
    using rebuild_live_slot [of _ _ d X ys] rebuild_dead_slot [of d _ _ ys] by (cases s) auto
next
  case (3 d)
  show ?case by (subst IndexFromDBDecoder_decode_slots.simps) (rule refl)
qed

definition decode_index_from_db :: "third_party \<Rightarrow> bytes \<Rightarrow> IndexEntry hashmap PDBResult" where
  "decode_index_from_db X bs =
     and_then (IndexFromDBDecoder_decode_index_from_file X (IndexFromDBDecoder_new bs))
       IndexFromDBDecoder_finish"

context byteorder
begin

lemma rebuild_header_new:
  assumes "length name64 = 64"
  shows "IndexFromDBDecoder_decode_db_header X (IndexFromDBDecoder_new (header_bytes rc name64 @ ys))
    = Inr ((IndexFromDBDecoder_new (header_bytes rc name64 @ ys))
        \<lparr>fd_cursor := advance 114 (Cursor_new (header_bytes rc name64 @ ys))\<rparr>)"
  using assms
  by (simp add: IndexFromDBDecoder_decode_db_header_def IndexFromDBDecoder_skip_metadata_key_def
      IndexFromDBDecoder_new_def Let_def set_position_plus read_simps header_bytes_def)

lemma decode_index_from_db_slots:
  assumes "length name64 = 64" and "\<forall>s \<in> set ss. rebuildable_slot s"
  shows "decode_index_from_db X (header_bytes rc name64 @ slots_bytes X ss) = Inr (index_slots X ss)"
proof -
  let ?bs = "header_bytes rc name64 @ slots_bytes X ss"
  let ?d = "(IndexFromDBDecoder_new ?bs)\<lparr>fd_cursor := advance 114 (Cursor_new ?bs)\<rparr>"
  have "IndexFromDBDecoder_decode_db_header X (IndexFromDBDecoder_new ?bs) = Inr ?d"
    using assms(1) by (rule rebuild_header_new)
  moreover have "cur_rest (fd_cursor ?d) = concat (map (slot_bytes X) ss)"
    using assms(1) by (simp add: length_header_bytes slots_bytes_def)
  then obtain d' where "IndexFromDBDecoder_decode_slots ?d = Inr d'" "fd_index d' = index_slots X ss"
    using rebuild_stream.loop_all [of ss ?d X] assms(2)
    by (auto simp: index_slots_def IndexFromDBDecoder_new_def)
  ultimately show ?thesis
    by (simp add: decode_index_from_db_def IndexFromDBDecoder_decode_index_from_file_def
        IndexFromDBDecoder_finish_def)
qed

end

section \<open>Where a key is found\<close>

definition index_from :: "third_party \<Rightarrow> nat \<Rightarrow> slot list \<Rightarrow> Key \<Rightarrow> IndexEntry option" where
  "index_from X p ss k = hm_get (add_all (slot_bytes X) index_slot p ss hm_new) k"

lemma slots_index_eq: "slots_index X ss k = index_from X 114 ss k"
  by (simp add: slots_index_def index_slots_def index_from_def)

lemma hm_get_index_add_all:
  "hm_get (add_all (slot_bytes X) index_slot p ss m) k
     = (case index_from X p ss k of None \<Rightarrow> hm_get m k | Some e \<Rightarrow> Some e)"
proof (induction ss arbitrary: p m)
  case Nil
  show ?case by (simp add: index_from_def)
next
  case (Cons s ss)
  show ?case
  proof (cases s)
    case (Live l f)
    then show ?thesis
      using Cons.IH [of "p + length (slot_bytes X s)" "hm_insert l (entry_at p l f) m"]
        Cons.IH [of "p + length (slot_bytes X s)" "hm_insert l (entry_at p l f) hm_new"]
      by (auto simp: index_from_def split: option.split)
  next
    case (Dead kl fl)
    then show ?thesis
      using Cons.IH [of "p + length (slot_bytes X s)" m] by (simp add: index_from_def)
  qed
qed

lemma index_from_Nil [simp]: "index_from X p [] k = None"
  by (simp add: index_from_def)

lemma index_from_append:
  "index_from X p (ss @ ts) k
     = (case index_from X (p + length (slots_bytes X ss)) ts k of
          None \<Rightarrow> index_from X p ss k | Some e \<Rightarrow> Some e)"
  using hm_get_index_add_all [of X "p + length (slots_bytes X ss)" ts
      "add_all (slot_bytes X) index_slot p ss hm_new" k]
  by (simp add: index_from_def [of X p] add_all_append slots_bytes_def split: option.split)

lemma index_from_Cons:
  "index_from X p (s # ss) k
     = (case index_from X (p + length (slot_bytes X s)) ss k of
          None \<Rightarrow> (case s of Live l f \<Rightarrow> if k = l then Some (entry_at p l f) else None | Dead _ _ \<Rightarrow> None)
        | Some e \<Rightarrow> Some e)"
proof -
  have "index_from X p [s] k
      = (case s of Live l f \<Rightarrow> if k = l then Some (entry_at p l f) else None | Dead _ _ \<Rightarrow> None)"
    by (cases s) (simp_all add: index_from_def)
  then show ?thesis using index_from_append [of X p "[s]" ss k] by (simp split: option.split)
qed

lemma index_from_None_iff: "index_from X p ss k = None \<longleftrightarrow> (\<forall>f. Live k f \<notin> set ss)"
proof (induction ss arbitrary: p)
  case (Cons s ss)
  show ?case
    using Cons.IH [of "p + length (slot_bytes X s)"]
    by (cases s) (auto simp: index_from_Cons split: option.split)
qed simp

lemma slots_index_None_iff: "slots_index X ss k = None \<longleftrightarrow> slots_map ss k = None"
  by (simp add: slots_index_eq index_from_None_iff slots_map_None_iff)

text \<open>The record an index entry names, and that no later one belongs to the same key.\<close>

lemma index_from_Some:
  assumes "index_from X p ss k = Some e"
  shows "\<exists>pre f post. ss = pre @ Live k f # post \<and> (\<forall>g. Live k g \<notin> set post)
    \<and> e = entry_at (p + length (slots_bytes X pre)) k f"
  using assms
proof (induction ss arbitrary: p)
  case Nil
  then show ?case by simp
next
  case (Cons s ss)
  show ?case
  proof (cases "index_from X (p + length (slot_bytes X s)) ss k")
    case None
    then obtain f where "s = Live k f" "e = entry_at p k f"
      using Cons.prems by (auto simp: index_from_Cons split: slot.splits if_split_asm)
    then show ?thesis
      using None by (intro exI [of _ "[]"] exI [of _ f] exI [of _ ss]) (simp add: index_from_None_iff)
  next
    case (Some e')
    then have "index_from X (p + length (slot_bytes X s)) ss k = Some e"
      using Cons.prems by (simp add: index_from_Cons)
    from Cons.IH [OF this] obtain pre f post where
      "ss = pre @ Live k f # post" "\<forall>g. Live k g \<notin> set post"
      "e = entry_at (p + length (slot_bytes X s) + length (slots_bytes X pre)) k f" by blast
    then show ?thesis
      by (intro exI [of _ "s # pre"] exI [of _ f] exI [of _ post]) (simp add: add.assoc)
  qed
qed

lemmas slots_index_Some = index_from_Some [of _ 114, folded slots_index_eq]

lemma slots_index_append_live:
  "slots_index X (ss @ [Live k f]) l
     = (if l = k then Some (entry_at (114 + length (slots_bytes X ss)) k f) else slots_index X ss l)"
  by (simp add: slots_index_eq index_from_append index_from_Cons)

text \<open>Replacing a live slot by a tombstone of the same size leaves every other key in place.\<close>

lemma slots_index_kill_other:
  assumes "length (slot_bytes X (Dead kl fl)) = length (slot_bytes X (Live k f))" and "l \<noteq> k"
  shows "slots_index X (pre @ Dead kl fl # post) l = slots_index X (pre @ Live k f # post) l"
  using assms by (simp add: slots_index_eq index_from_append index_from_Cons split: option.split)

lemma slots_map_kill_other:
  "l \<noteq> k \<Longrightarrow> slots_map (pre @ Dead kl fl # post) l = slots_map (pre @ Live k f # post) l"
  by (simp split: option.split)

lemma slots_index_sized:
  assumes "\<forall>s \<in> set ss. storable_slot s" and "slots_index X ss k = Some e"
  shows "sized_entry (k, e)"
  using slots_index_Some [OF assms(2)] assms(1) storable_key_len [of k]
  by (auto simp: sized_entry_def entry_at_def Key_len_def)

lemma index_from_locates:
  assumes "index_from X p ss k = Some e" and "p + length (slots_bytes X ss) < 2 ^ 64"
    and "\<forall>s \<in> set ss. storable_slot s" and "length hdr = p"
  shows "\<exists>f. slots_map ss k = Some f
    \<and> take (length (record_bytes X k f)) (drop (unat (ie_offset e)) (hdr @ slots_bytes X ss)) = record_bytes X k f
    \<and> unat (ie_key_len e) = Key_len k \<and> unat (ie_field_len e) = length (bytes_from_field f)"
proof -
  obtain pre f post where ss: "ss = pre @ Live k f # post" and last: "\<forall>g. Live k g \<notin> set post"
    and e: "e = entry_at (p + length (slots_bytes X pre)) k f"
    using index_from_Some [OF assms(1)] by blast
  have "slots_map post k = None" using last by (simp add: slots_map_None_iff)
  moreover have "storable_key k" "storable_field f" using assms(3) by (auto simp: ss)
  moreover have "unat (ie_offset e) = p + length (slots_bytes X pre)"
    using assms(2) by (simp add: e entry_at_def unat_of_nat_u64 ss del: of_nat_add)
  ultimately show ?thesis
    using storable_key_len [of k] storable_field_len [of f] assms(4)
    by (simp add: ss e entry_at_def Key_len_def)
qed

section \<open>Properties\<close>

text \<open>
  C12. The index rebuilt from a data file has an entry for exactly the keys the file holds, and each
  entry names the place of the record that counts: the bytes at its offset are the encoding of the
  key with its current field, and its lengths are those of that record.
\<close>

theorem rebuilt_index_locates_records:
  assumes "byteorder X" and "length name64 = 64" and "\<forall>s \<in> set ss. rebuildable_slot s"
    and "file = header_bytes rc name64 @ slots_bytes X ss" and "length file < 2 ^ 64"
  shows "\<exists>index fields meta. decode_index_from_db X file = Inr index \<and> decode_db X file = Inr (fields, meta)
    \<and> (\<forall>k. hm_get index k = None \<longleftrightarrow> hm_get fields k = None)
    \<and> (\<forall>k e. hm_get index k = Some e \<longrightarrow> (\<exists>f. hm_get fields k = Some f
        \<and> take (length (encode X k f)) (drop (unat (ie_offset e)) file) = encode X k f
        \<and> unat (ie_key_len e) = Key_len k \<and> unat (ie_field_len e) = length (bytes_from_field f)))"
proof -
  have st: "\<forall>s \<in> set ss. storable_slot s"
  proof
    fix s assume "s \<in> set ss"
    with assms(3) show "storable_slot s" by (cases s) auto
  qed
  have len: "length (header_bytes rc name64) = 114" using assms(2) by (rule length_header_bytes)
  have idx: "decode_index_from_db X file = Inr (index_slots X ss)"
    unfolding assms(4) by (rule byteorder.decode_index_from_db_slots [OF assms(1-3)])
  have db: "decode_db X file = Inr (fold load_slot ss hm_new,
      \<lparr>meta_version = DB_VERSION, meta_record_count = rc, meta_name = trim_nul (from_utf8_lossy name64)\<rparr>)"
    unfolding assms(4) by (rule byteorder.decode_db_slots [OF assms(1,2) st])
  have none: "hm_get (index_slots X ss) k = None \<longleftrightarrow> slots_map ss k = None" for k
    using slots_index_None_iff [of X ss k] by (simp add: slots_index_def)
  have some: "\<exists>f. slots_map ss k = Some f
        \<and> take (length (encode X k f)) (drop (unat (ie_offset e)) file) = encode X k f
        \<and> unat (ie_key_len e) = Key_len k \<and> unat (ie_field_len e) = length (bytes_from_field f)"
    if "hm_get (index_slots X ss) k = Some e" for k e
    unfolding assms(4) encode_eq
    using index_from_locates [of X 114 ss k e, OF _ _ st len] that assms(4,5) len
    by (simp add: index_from_def index_slots_def)
  have flds: "hm_get (fold load_slot ss hm_new) = slots_map ss"
    by (rule ext) (simp add: hm_get_load_slots split: option.split)
  show ?thesis
    by (rule exI [of _ "index_slots X ss"], rule exI [of _ "fold load_slot ss hm_new"], rule exI,
        rule conjI [OF idx conjI [OF db]])
      (simp only: flds none some simp_thms not_False_eq_True all_simps, use some in blast)
qed

theorem rebuilt_index_locates_records_witness:
  "\<exists>index fields meta. decode_index_from_db (documented_crates (\<lambda>_. 7))
        (header_bytes 1 (replicate 64 0) @ slots_bytes (documented_crates (\<lambda>_. 7)) [Dead 1 3, Live (Key [107]) (Field.Raw [1])]) = Inr index
    \<and> decode_db (documented_crates (\<lambda>_. 7))
        (header_bytes 1 (replicate 64 0) @ slots_bytes (documented_crates (\<lambda>_. 7)) [Dead 1 3, Live (Key [107]) (Field.Raw [1])]) = Inr (fields, meta)
    \<and> (\<forall>k. hm_get index k = None \<longleftrightarrow> hm_get fields k = None)"
  using rebuilt_index_locates_records [OF documented.byteorder_axioms [of "\<lambda>_. 7"], of "replicate 64 0"
      "[Dead 1 3, Live (Key [107]) (Field.Raw [1])]" _ 1]
  by (fastforce simp: storable_key_def storable_field_def Key_len_def Key_is_empty_def
      length_header_bytes length_tombstone_bytes length_record_bytes)

text \<open>
  C20. The index file written by \<open>encode_index_file\<close>, in whatever order the hash map is iterated, is read
  back as the same index.
\<close>

theorem index_file_roundtrip:
  assumes "byteorder X" and "hash_order ord" and "hm_wf index"
    and "\<And>k e. hm_get index k = Some e \<Longrightarrow> unat (ie_key_len e) = Key_len k"
  shows "\<exists>m. decode_index X (IndexEncoder_finish (IndexEncoder_encode_index_file ord index IndexEncoder_new)) = Inr m
    \<and> hm_get m = hm_get index"
  using byteorder.decode_index_file_bytes [OF assms(1-3)] assms(4)
  by (auto simp: IndexEncoder_file sized_entry_def fun_eq_iff)

theorem index_file_roundtrip_witness:
  "\<exists>m. decode_index (documented_crates (\<lambda>_. 7)) (IndexEncoder_finish (IndexEncoder_encode_index_file rev
      [(Key [107], \<lparr>ie_offset = 114, ie_key_len = 1, ie_field_len = 3\<rparr>),
       (Key [], \<lparr>ie_offset = 140, ie_key_len = 0, ie_field_len = 9\<rparr>)] IndexEncoder_new)) = Inr m
    \<and> hm_get m = hm_get [(Key [107], \<lparr>ie_offset = 114, ie_key_len = 1, ie_field_len = 3\<rparr>),
       (Key [], \<lparr>ie_offset = 140, ie_key_len = 0, ie_field_len = 9\<rparr>)]"
  by (rule index_file_roundtrip [OF documented.byteorder_axioms hash_order_instances(2)])
    (auto simp: hm_wf_def hm_get_def Key_len_def split: if_split_asm)

text \<open>
  C23. An empty key can be written and read as a record, but a data file holding one defeats the
  rebuilding of the index: it is reported as an invalid index entry.
\<close>

theorem empty_key_blocks_index_rebuild:
  assumes "byteorder X" and "length name64 = 64" and "\<forall>s \<in> set pre. rebuildable_slot s" and "storable_field f"
  shows "decode_index_from_db X (header_bytes rc name64 @ slots_bytes X pre @ encode X Key_empty f @ rest)
      = Inl (Err InvalidIndexEntry)
    \<and> decode X (encode X Key_empty f) = Inr (Key_empty, f)"
proof -
  let ?bs = "header_bytes rc name64 @ slots_bytes X pre @ encode X Key_empty f @ rest"
  let ?d = "(IndexFromDBDecoder_new ?bs)\<lparr>fd_cursor := advance 114 (Cursor_new ?bs)\<rparr>"
  have hdr: "IndexFromDBDecoder_decode_db_header X (IndexFromDBDecoder_new ?bs) = Inr ?d"
    by (rule byteorder.rebuild_header_new [OF assms(1,2)])
  have "cur_rest (fd_cursor ?d) = concat (map (slot_bytes X) pre) @ encode X Key_empty f @ rest"
    using assms(2) by (simp add: length_header_bytes slots_bytes_def)
  then obtain d where d: "IndexFromDBDecoder_decode_slots ?d = IndexFromDBDecoder_decode_slots d"
    and rest: "cur_rest (fd_cursor d) = record_bytes X Key_empty f @ rest"
    using rebuild_stream.loop_prefix [of pre ?d X "encode X Key_empty f @ rest"] assms(3)
    by (auto simp: encode_eq)
  have "IndexFromDBDecoder_decode_slot d = Inl (Err InvalidIndexEntry)"
    using storable_field_len [OF assms(4)]
    by (simp add: IndexFromDBDecoder_decode_slot_def IndexFromDBDecoder_step_defs read_simps rest
        record_bytes_def record_summed_def Let_def RECORD_MAGIC_NUMBER_def from_to_le_bytes
        set_position_plus Key_empty_def)
  moreover have "has_more (fd_cursor d)" by (simp add: has_more_iff rest record_bytes_def Let_def RECORD_MAGIC_NUMBER_def)
  ultimately have "IndexFromDBDecoder_decode_slots d = Inl (Err InvalidIndexEntry)"
    by (subst IndexFromDBDecoder_decode_slots.simps) simp
  moreover have "decode X (encode X Key_empty f) = Inr (Key_empty, f)"
    using decode_live_slot [of Key_empty f "DBDecoder_new (encode X Key_empty f)" X "[]"] assms(4)
    by (auto simp: decode_def encode_eq hm_iter_def hm_keys_def hm_insert_def hm_new_def
      List.map_filter_simps storable_key_def Key_len_def Key_empty_def)
  ultimately show ?thesis
    using hdr d by (simp add: decode_index_from_db_def IndexFromDBDecoder_decode_index_from_file_def)
qed

theorem empty_key_blocks_index_rebuild_witness:
  "decode_index_from_db (documented_crates (\<lambda>_. 7)) (header_bytes 1 (replicate 64 0)
      @ slots_bytes (documented_crates (\<lambda>_. 7)) [] @ encode (documented_crates (\<lambda>_. 7)) Key_empty (Field.Raw [1]) @ [])
    = Inl (Err InvalidIndexEntry)"
  using empty_key_blocks_index_rebuild [OF documented.byteorder_axioms [of "\<lambda>_. 7"], of "replicate 64 0" "[]" "Field.Raw [1]" 1 "[]"]
  by (simp add: storable_field_def)

end
