(* ===== verification/Wal_Codec.thy ===== *)
theory Wal_Codec
  imports Byte_Cursor
begin

text \<open>
  The log format: \<open>WalEntry\<close> of \<^verbatim>\<open>src/db/wal.rs\<close>, \<open>WalEncoder\<close> and \<open>WalDecoder\<close> of
  \<^verbatim>\<open>src/db/codec.rs\<close>. The \<open>&mut self\<close> methods take the encoder or decoder last and return it
  updated; a decoder that fails is dropped by every caller, so only the error is kept.
\<close>

section \<open>Entries\<close>

datatype WalEntry = Set Key Field | Delete Key

section \<open>Encoder\<close>

record WalEncoder =
  we_buffer :: bytes

definition WalEncoder_new :: WalEncoder where
  "WalEncoder_new = \<lparr>we_buffer = []\<rparr>"

definition WalEncoder_write :: "bytes \<Rightarrow> WalEncoder \<Rightarrow> WalEncoder" where
  "WalEncoder_write buffer e = e\<lparr>we_buffer := we_buffer e @ buffer\<rparr>"

definition WalEncoder_encode_set_bytes :: "WalEncoder \<Rightarrow> WalEncoder" where
  "WalEncoder_encode_set_bytes e = WalEncoder_write [0x1] e"

definition WalEncoder_encode_delete_bytes :: "WalEncoder \<Rightarrow> WalEncoder" where
  "WalEncoder_encode_delete_bytes e = WalEncoder_write [0x2] e"

definition WalEncoder_encode_key_len :: "nat \<Rightarrow> WalEncoder \<Rightarrow> WalEncoder" where
  "WalEncoder_encode_key_len key_len e = WalEncoder_write (to_le_bytes 2 (of_nat key_len :: u16)) e"

definition WalEncoder_encode_key_bytes :: "bytes \<Rightarrow> WalEncoder \<Rightarrow> WalEncoder" where
  "WalEncoder_encode_key_bytes key e = WalEncoder_write key e"

definition WalEncoder_encode_key :: "Key \<Rightarrow> WalEncoder \<Rightarrow> WalEncoder" where
  "WalEncoder_encode_key key e =
     WalEncoder_encode_key_bytes (Key_as_bytes key) (WalEncoder_encode_key_len (Key_len key) e)"

definition WalEncoder_encode_field_len :: "nat \<Rightarrow> WalEncoder \<Rightarrow> WalEncoder" where
  "WalEncoder_encode_field_len field_len e =
     WalEncoder_write (to_le_bytes 4 (of_nat field_len :: u32)) e"

definition WalEncoder_encode_field_bytes :: "bytes \<Rightarrow> WalEncoder \<Rightarrow> WalEncoder" where
  "WalEncoder_encode_field_bytes field e = WalEncoder_write field e"

definition WalEncoder_encode_field :: "Field \<Rightarrow> WalEncoder \<Rightarrow> WalEncoder" where
  "WalEncoder_encode_field field e =
     (let payload = bytes_from_field field in
      WalEncoder_encode_field_bytes payload (WalEncoder_encode_field_len (length payload) e))"

definition WalEncoder_encode_set_entry :: "Key \<Rightarrow> Field \<Rightarrow> WalEncoder \<Rightarrow> WalEncoder" where
  "WalEncoder_encode_set_entry key field e =
     WalEncoder_encode_field field (WalEncoder_encode_key key (WalEncoder_encode_set_bytes e))"

definition WalEncoder_encode_delete_entry :: "Key \<Rightarrow> WalEncoder \<Rightarrow> WalEncoder" where
  "WalEncoder_encode_delete_entry key e =
     WalEncoder_encode_key key (WalEncoder_encode_delete_bytes e)"

fun WalEncoder_encode_wal_entry :: "WalEntry \<Rightarrow> WalEncoder \<Rightarrow> WalEncoder" where
  "WalEncoder_encode_wal_entry (WalEntry.Set key field) e = WalEncoder_encode_set_entry key field e"
| "WalEncoder_encode_wal_entry (WalEntry.Delete key) e = WalEncoder_encode_delete_entry key e"

definition WalEncoder_finish :: "WalEncoder \<Rightarrow> bytes" where
  "WalEncoder_finish e = we_buffer e"

definition WalEncoder_reset :: "WalEncoder \<Rightarrow> WalEncoder" where
  "WalEncoder_reset e = e\<lparr>we_buffer := []\<rparr>"

lemmas WalEncoder_defs =
  WalEncoder_new_def WalEncoder_write_def WalEncoder_encode_set_bytes_def
  WalEncoder_encode_delete_bytes_def WalEncoder_encode_key_len_def
  WalEncoder_encode_key_bytes_def WalEncoder_encode_key_def WalEncoder_encode_field_len_def
  WalEncoder_encode_field_bytes_def WalEncoder_encode_field_def
  WalEncoder_encode_set_entry_def WalEncoder_encode_delete_entry_def WalEncoder_finish_def
  WalEncoder_reset_def Let_def

section \<open>Decoder\<close>

record WalDecoder =
  wd_cursor :: cursor
  wd_wal :: "WalEntry list"

definition WalDecoder_new :: "bytes \<Rightarrow> WalDecoder" where
  "WalDecoder_new bs = \<lparr>wd_cursor = Cursor_new bs, wd_wal = []\<rparr>"

definition WalDecoder_wal_push :: "WalEntry \<Rightarrow> WalDecoder \<Rightarrow> WalDecoder" where
  "WalDecoder_wal_push entry d = d\<lparr>wd_wal := wd_wal d @ [entry]\<rparr>"

definition WalDecoder_decode_set_entry :: "third_party \<Rightarrow> WalDecoder \<Rightarrow> WalDecoder PDBResult" where
  "WalDecoder_decode_set_entry X d =
     and_then (read_u16_le X (wd_cursor d)) (\<lambda>(key_len, c).
     and_then (read_exact (unat key_len) c) (\<lambda>(key_buf, c).
     and_then (read_u32_le X c) (\<lambda>(field_len, c).
     and_then (read_exact (unat field_len) c) (\<lambda>(feld_buf, c).
     and_then (field_from_bytes feld_buf) (\<lambda>(field, _).
     Inr (WalDecoder_wal_push (WalEntry.Set (Key key_buf) field) (d\<lparr>wd_cursor := c\<rparr>)))))))"

definition WalDecoder_decode_delete_entry :: "third_party \<Rightarrow> WalDecoder \<Rightarrow> WalDecoder PDBResult" where
  "WalDecoder_decode_delete_entry X d =
     and_then (read_u16_le X (wd_cursor d)) (\<lambda>(key_len, c).
     and_then (read_exact (unat key_len) c) (\<lambda>(key_buf, c).
     Inr (WalDecoder_wal_push (WalEntry.Delete (Key key_buf)) (d\<lparr>wd_cursor := c\<rparr>))))"

definition WalDecoder_decode_wal_entry :: "third_party \<Rightarrow> WalDecoder \<Rightarrow> WalDecoder PDBResult" where
  "WalDecoder_decode_wal_entry X d =
     and_then (read_u8 X (wd_cursor d)) (\<lambda>(b, c).
       let d = d\<lparr>wd_cursor := c\<rparr> in
       if b = 0x1 then WalDecoder_decode_set_entry X d
       else if b = 0x2 then WalDecoder_decode_delete_entry X d
       else Inl (Err (UnknownDtype b)))"

lemmas WalDecoder_defs =
  WalDecoder_wal_push_def WalDecoder_decode_set_entry_def WalDecoder_decode_delete_entry_def
  WalDecoder_decode_wal_entry_def

lemma WalDecoder_decode_wal_entry_advances:
  assumes "WalDecoder_decode_wal_entry X d = Inr d'"
  shows "length (cur_rest (wd_cursor d')) < length (cur_rest (wd_cursor d))"
  using assms
  by (auto simp: WalDecoder_defs seq_iff Let_def split: if_split_asm
      dest!: read_int_InrD read_exact_InrD)

function WalDecoder_decode_wal_entries :: "third_party \<Rightarrow> WalDecoder \<Rightarrow> WalDecoder PDBResult" where
  "WalDecoder_decode_wal_entries X d =
     (if has_more (wd_cursor d)
      then and_then (WalDecoder_decode_wal_entry X d) (WalDecoder_decode_wal_entries X)
      else Inr d)"
  by pat_completeness auto
termination
  by (relation "measure (\<lambda>(X, d). length (cur_rest (wd_cursor d)))")
    (simp_all add: WalDecoder_decode_wal_entry_advances)

declare WalDecoder_decode_wal_entries.simps [simp del]

definition WalDecoder_finish :: "WalDecoder \<Rightarrow> WalEntry list PDBResult" where
  "WalDecoder_finish d = Inr (wd_wal d)"

section \<open>The log format\<close>

definition wal_entry_bytes :: "WalEntry \<Rightarrow> bytes" where
  "wal_entry_bytes e = WalEncoder_finish (WalEncoder_encode_wal_entry e WalEncoder_new)"

fun storable_entry :: "WalEntry \<Rightarrow> bool" where
  "storable_entry (WalEntry.Set k f) = (storable_key k \<and> storable_field f)"
| "storable_entry (WalEntry.Delete k) = storable_key k"

lemma wal_entry_bytes_simps:
  "wal_entry_bytes (WalEntry.Set k f)
     = 0x1 # to_le_bytes 2 (of_nat (Key_len k) :: u16) @ Key_as_bytes k
         @ to_le_bytes 4 (of_nat (length (bytes_from_field f)) :: u32) @ bytes_from_field f"
  "wal_entry_bytes (WalEntry.Delete k)
     = 0x2 # to_le_bytes 2 (of_nat (Key_len k) :: u16) @ Key_as_bytes k"
  by (simp_all add: wal_entry_bytes_def WalEncoder_defs)

lemma WalEncoder_encode_appends:
  "we_buffer (WalEncoder_encode_wal_entry e enc) = we_buffer enc @ wal_entry_bytes e"
  by (cases e) (simp_all add: wal_entry_bytes_def WalEncoder_defs)

lemma wal_entry_bytes_nonempty [simp]: "wal_entry_bytes e \<noteq> []"
  by (cases e) (simp_all add: wal_entry_bytes_simps)

section \<open>Reading back what was written\<close>

context byteorder
begin

lemma decode_wal_entry_bytes:
  assumes "storable_entry x" and rest: "cur_rest (wd_cursor d) = wal_entry_bytes x @ ys"
  shows "WalDecoder_decode_wal_entry X d
    = Inr (d\<lparr>wd_cursor := advance (length (wal_entry_bytes x)) (wd_cursor d), wd_wal := wd_wal d @ [x]\<rparr>)"
proof (cases x)
  case (Set k f)
  then show ?thesis
    using assms(1) storable_key_len [of k] storable_field_len [of f] storable_field_roundtrip [of f]
    by (simp add: WalDecoder_defs read_simps rest wal_entry_bytes_simps)
next
  case (Delete k)
  then show ?thesis
    using assms(1) storable_key_len [of k]
    by (simp add: WalDecoder_defs read_simps rest wal_entry_bytes_simps)
qed

text \<open>An entry whose last bytes are missing is an end-of-file error, whatever was cut off.\<close>

lemma decode_wal_entry_torn:
  assumes "storable_entry x" and bytes: "wal_entry_bytes x = ys @ zs"
    and "ys \<noteq> []" and "zs \<noteq> []" and rest: "cur_rest (wd_cursor d) = ys"
  shows "WalDecoder_decode_wal_entry X d = Inl (Err (Io eof_error))"
proof -
  have ys: "ys = take (length ys) (wal_entry_bytes x)" by (simp add: bytes)
  define n where "n = length ys"
  have n: "0 < n" "n < length (wal_entry_bytes x)" using assms(3,4) by (simp_all add: bytes n_def)
  have rest': "cur_rest (wd_cursor d) = take n (wal_entry_bytes x)"
    using ys rest by (simp add: n_def)
  show ?thesis
  proof (cases x)
    case (Set k f)
    with n rest' show ?thesis
      using assms(1) storable_key_len [of k] storable_field_len [of f]
      by (cases "n < 3"; cases "n < 3 + Key_len k"; cases "n < 7 + Key_len k")
        (simp_all add: WalDecoder_defs read_simps wal_entry_bytes_simps Key_len_def min_def)
  next
    case (Delete k)
    with n rest' show ?thesis
      using assms(1) storable_key_len [of k]
      by (cases "n < 3"; cases "n < 3 + Key_len k")
        (simp_all add: WalDecoder_defs read_simps wal_entry_bytes_simps Key_len_def min_def)
  qed
qed

end
sublocale byteorder \<subseteq> wal_stream: torn_stream wd_cursor wd_wal
    "WalDecoder_decode_wal_entry X" "WalDecoder_decode_wal_entries X"
    wal_entry_bytes storable_entry "\<lambda>p x acc. acc @ [x]"
proof (unfold_locales, goal_cases)
  case (1 x)
  show ?case by simp
next
  case (2 x d ys)
  then show ?case by (simp add: decode_wal_entry_bytes)
next
  case (3 d)
  show ?case by (subst WalDecoder_decode_wal_entries.simps) (rule refl)
next
  case (4 x ys zs d)
  then show ?case by (rule decode_wal_entry_torn)
qed

text \<open>Decoding a whole log, as \<open>Wal::replay\<close> does it.\<close>

definition decode_wal :: "third_party \<Rightarrow> bytes \<Rightarrow> WalEntry list PDBResult" where
  "decode_wal X bs = and_then (WalDecoder_decode_wal_entries X (WalDecoder_new bs)) WalDecoder_finish"

definition wal_bytes :: "WalEntry list \<Rightarrow> bytes" where
  "wal_bytes es = concat (map wal_entry_bytes es)"

lemma wal_bytes_simps [simp]:
  "wal_bytes [] = []"
  "wal_bytes (es @ fs) = wal_bytes es @ wal_bytes fs"
  "wal_bytes (e # es) = wal_entry_bytes e @ wal_bytes es"
  by (simp_all add: wal_bytes_def)

lemma WalDecoder_new_simps [simp]:
  "wd_cursor (WalDecoder_new bs) = Cursor_new bs"
  "wd_wal (WalDecoder_new bs) = []"
  by (simp_all add: WalDecoder_new_def)

context byteorder
begin

lemma decode_wal_bytes:
  "\<forall>e \<in> set es. storable_entry e \<Longrightarrow> decode_wal X (wal_bytes es) = Inr es"
  using wal_stream.loop_all [of es "WalDecoder_new (wal_bytes es)"]
  by (auto simp: decode_wal_def WalDecoder_finish_def wal_bytes_def)

lemma decode_wal_torn:
  assumes "\<forall>e \<in> set es. storable_entry e" and "storable_entry e"
    and "wal_entry_bytes e = ys @ zs" and "ys \<noteq> []" and "zs \<noteq> []"
  shows "decode_wal X (wal_bytes es @ ys) = Inl (Err (Io eof_error))"
  using wal_stream.loop_torn [of es e ys zs "WalDecoder_new (wal_bytes es @ ys)"] assms
  by (simp add: decode_wal_def wal_bytes_def)

end

text \<open>A key of \<open>2 ^ 16\<close> bytes: its length field holds 0, and the key is read as what follows.\<close>

context byteorder
begin

lemma decode_wal_long_key:
  assumes "\<forall>e \<in> set es. storable_entry e" and len16: "Key_len k = 2 ^ 16"
    and big: "2 ^ 16 + length (bytes_from_field f) < unat (from_le_bytes (take 4 (Key_as_bytes k)) :: u32)"
  shows "decode_wal X (wal_bytes es @ wal_entry_bytes (WalEntry.Set k f)) = Inl (Err (Io eof_error))"
proof -
  let ?bs = "wal_bytes es @ wal_entry_bytes (WalEntry.Set k f)"
  obtain d where d: "WalDecoder_decode_wal_entries X (WalDecoder_new ?bs) = WalDecoder_decode_wal_entries X d"
    and rest: "cur_rest (wd_cursor d) = wal_entry_bytes (WalEntry.Set k f)"
    using wal_stream.loop_prefix [of es "WalDecoder_new ?bs" "wal_entry_bytes (WalEntry.Set k f)"] assms(1)
    by (auto simp: wal_bytes_def)
  have k0: "(of_nat (Key_len k) :: u16) = 0" unfolding len16 by simp
  have len: "length (Key_as_bytes k) = 2 ^ 16" using len16 by (simp add: Key_len_def)
  have step: "WalDecoder_decode_wal_entry X d = Inl (Err (Io eof_error))"
    using big len
    by (simp add: WalDecoder_defs read_simps rest wal_entry_bytes_simps k0 bo_u32_le)
  show ?thesis
    unfolding decode_wal_def d by (subst WalDecoder_decode_wal_entries.simps) (simp add: step has_more_iff rest)
qed

end

lemma WalEncoder_encode_all:
  "WalEncoder_finish (fold WalEncoder_encode_wal_entry es WalEncoder_new) = wal_bytes es"
proof -
  have "we_buffer (fold WalEncoder_encode_wal_entry es e) = we_buffer e @ wal_bytes es" for e
    by (induction es arbitrary: e) (simp_all add: WalEncoder_encode_appends)
  then show ?thesis by (simp add: WalEncoder_finish_def WalEncoder_new_def)
qed

section \<open>Properties\<close>

text \<open>
  C15. Decoding the bytes the log encoder writes for any sequence of entries gives the sequence back,
  whatever the keys and fields, as long as each length fits its length field.
\<close>

theorem wal_codec_roundtrip:
  assumes "byteorder X" and "\<forall>e \<in> set es. storable_entry e"
  shows "decode_wal X (WalEncoder_finish (fold WalEncoder_encode_wal_entry es WalEncoder_new)) = Inr es"
  using byteorder.decode_wal_bytes [OF assms] by (simp add: WalEncoder_encode_all)

theorem wal_codec_roundtrip_witness:
  "decode_wal (documented_crates (\<lambda>_. 0)) (WalEncoder_finish (fold WalEncoder_encode_wal_entry
      [WalEntry.Set (Key [107]) (Field.Raw [1, 2]), WalEntry.Delete (Key [107, 50])] WalEncoder_new))
   = Inr [WalEntry.Set (Key [107]) (Field.Raw [1, 2]), WalEntry.Delete (Key [107, 50])]"
  by (rule wal_codec_roundtrip [OF documented.byteorder_axioms])
    (simp add: storable_key_def storable_field_def Key_len_def)

end
