(* ===== verification/File_Handler.thy ===== *)
theory File_Handler
  imports Byte_Cursor
begin

text \<open>
  \<^verbatim>\<open>src/db/file.rs\<close>. A \<open>FileHandler\<close> is the sending end of a channel whose receiver, a task of
  its own, owns the file and executes one command at a time; here the handler is the file its
  task owns, and a request is the execution of its command. The channel itself, with several
  clients waiting, is the subject of the theory \<open>File_Queue\<close>.

  The file is a byte vector with a position and the append flag it was opened with. Any call
  on it may fail: the outcomes of the calls to come are a list in the file's state, used up one
  by one, so that a theorem can speak of every pattern of failures; a failing write may have
  transferred some of its bytes. When the list is exhausted every call succeeds.

  The file is a \<open>tokio::fs::File\<close>, which is not part of the repository. It hands a write to a thread
  of the runtime and, as its documentation says, \<open>write\<close> returns before the write has finished: only
  \<open>flush\<close>, which the code never calls, or the next write tells whether it failed. So a failing
  write has two outcomes: \<open>IoFail\<close>, reported by the call itself, and \<open>IoLate\<close>, where the call succeeds
  and the error is kept (\<open>f_late\<close>) for the next write, which then fails without writing anything. Seeks,
  truncation and \<open>sync_all\<close> wait for a pending write but do not report its error.
\<close>

section \<open>Files\<close>

datatype io_outcome = IoOk | IoFail io_error nat | IoLate io_error nat

record File =
  f_bytes :: bytes
  f_pos :: nat
  f_append :: bool
  f_late :: "io_error option"
  f_plan :: "io_outcome list"

type_synonym 'a io = "File \<Rightarrow> (io_error + 'a) \<times> File"

definition next_io :: "File \<Rightarrow> io_outcome \<times> File" where
  "next_io f = (case f_plan f of [] \<Rightarrow> (IoOk, f) | out # plan \<Rightarrow> (out, f\<lparr>f_plan := plan\<rparr>))"

text \<open>\<open>?\<close> between I/O calls: an error ends the sequence, but what was done stays done.\<close>

definition io_then :: "'a io \<Rightarrow> ('a \<Rightarrow> 'b io) \<Rightarrow> 'b io" where
  "io_then m g f = (case m f of (Inl e, f') \<Rightarrow> (Inl e, f') | (Inr x, f') \<Rightarrow> g x f')"

definition io_return :: "'a \<Rightarrow> 'a io" where
  "io_return x f = (Inr x, f)"

text \<open>A call that does not write reports its own failure; a late one is for writes.\<close>

definition io_call :: "(File \<Rightarrow> 'a \<times> File) \<Rightarrow> 'a io" where
  "io_call g f = (case next_io f of
     (IoFail e _, f) \<Rightarrow> (Inl e, f)
   | (_, f) \<Rightarrow> (case g f of (x, f) \<Rightarrow> (Inr x, f)))"

definition File_len :: "nat io" where
  "File_len = io_call (\<lambda>f. (length (f_bytes f), f))"

definition File_seek_start :: "nat \<Rightarrow> nat io" where
  "File_seek_start pos = io_call (\<lambda>f. (pos, f\<lparr>f_pos := pos\<rparr>))"

definition File_seek_end :: "nat io" where
  "File_seek_end = io_call (\<lambda>f. (length (f_bytes f), f\<lparr>f_pos := length (f_bytes f)\<rparr>))"

definition File_read_to_end :: "bytes io" where
  "File_read_to_end = io_call (\<lambda>f.
     (drop (f_pos f) (f_bytes f), f\<lparr>f_pos := max (f_pos f) (length (f_bytes f))\<rparr>))"

text \<open>A write goes to the position, or to the end of a file opened for appending.\<close>

definition write_bytes :: "bytes \<Rightarrow> File \<Rightarrow> File" where
  "write_bytes data f =
     (if data = [] then f
      else
        let p = (if f_append f then length (f_bytes f) else f_pos f)
        in f\<lparr>f_bytes := splice p data (zero_extend p (f_bytes f)), f_pos := p + length data\<rparr>)"

text \<open>\<open>write_all\<close> of nothing makes no call.\<close>

definition File_write_all :: "bytes \<Rightarrow> unit io" where
  "File_write_all data f =
     (if data = [] then (Inr (), f)
      else case f_late f of
        Some e \<Rightarrow> (Inl e, f\<lparr>f_late := None\<rparr>)
      | None \<Rightarrow>
          (case next_io f of
             (IoOk, f) \<Rightarrow> (Inr (), write_bytes data f)
           | (IoFail e n, f) \<Rightarrow> (Inl e, write_bytes (take n data) f)
           | (IoLate e n, f) \<Rightarrow> (Inr (), (write_bytes (take n data) f)\<lparr>f_late := Some e\<rparr>)))"

definition File_set_len :: "nat \<Rightarrow> unit io" where
  "File_set_len n = io_call (\<lambda>f. ((), f\<lparr>f_bytes := take n (zero_extend n (f_bytes f))\<rparr>))"

definition File_sync_all :: "unit io" where
  "File_sync_all = io_call (\<lambda>f. ((), f))"

section \<open>Commands and the task that executes them\<close>

datatype FileCmd = ReadAll | WriteAt u64 bytes | Append bytes | SetLen u64 | SyncAll

datatype FileReply = ReplyBytes bytes | ReplyPos u64 | ReplyUnit

fun file_task :: "FileCmd \<Rightarrow> FileReply io" where
  "file_task ReadAll =
     io_then (File_seek_start 0) (\<lambda>_.
     io_then File_read_to_end (\<lambda>buf. io_return (ReplyBytes buf)))"
| "file_task (WriteAt pos data) =
     io_then (File_seek_start (unat pos)) (\<lambda>_.
     io_then (File_write_all data) (\<lambda>_. io_return ReplyUnit))"
| "file_task (Append data) =
     io_then File_seek_end (\<lambda>pos.
     io_then (File_write_all data) (\<lambda>_. io_return (ReplyPos (of_nat pos))))"
| "file_task (SetLen len) = io_then (File_set_len (unat len)) (\<lambda>_. io_return ReplyUnit)"
| "file_task SyncAll = io_then File_sync_all (\<lambda>_. io_return ReplyUnit)"

section \<open>The handler\<close>

type_synonym FileHandler = File

definition FileHandler_spawn :: "File \<Rightarrow> io_error + FileHandler" where
  "FileHandler_spawn file = Inr file"

text \<open>
  Each request sends its command with a one-shot reply channel of the right type and waits;
  the \<open>case\<close> below reads the reply that the command's arm of the task sends.
\<close>

definition FileHandler_read_all :: "bytes io" where
  "FileHandler_read_all = io_then (file_task ReadAll) (\<lambda>r.
     case r of ReplyBytes buf \<Rightarrow> io_return buf | _ \<Rightarrow> io_return [])"

definition FileHandler_write_at :: "u64 \<Rightarrow> bytes \<Rightarrow> unit io" where
  "FileHandler_write_at pos data = io_then (file_task (WriteAt pos data)) (\<lambda>_. io_return ())"

definition FileHandler_append :: "bytes \<Rightarrow> u64 io" where
  "FileHandler_append data = io_then (file_task (Append data)) (\<lambda>r.
     case r of ReplyPos pos \<Rightarrow> io_return pos | _ \<Rightarrow> io_return 0)"

definition FileHandler_set_len :: "u64 \<Rightarrow> unit io" where
  "FileHandler_set_len len = io_then (file_task (SetLen len)) (\<lambda>_. io_return ())"

definition FileHandler_sync_all :: "unit io" where
  "FileHandler_sync_all = io_then (file_task SyncAll) (\<lambda>_. io_return ())"

text \<open>The boxed error of a request becomes an \<open>Io\<close> error of kind \<open>Other\<close> with its text.\<close>

definition map_file_handler_error :: "io_error \<Rightarrow> PeachDbError" where
  "map_file_handler_error err = Io (io_other (io_msg err))"

definition map_handler_result :: "io_error + 'a \<Rightarrow> 'a PDBResult" where
  "map_handler_result m = map_err (\<lambda>e. Err (map_file_handler_error e)) m"

lemma map_handler_result_simps [simp]:
  "map_handler_result (Inl e) = Inl (Err (map_file_handler_error e))"
  "map_handler_result (Inr x) = Inr x"
  by (simp_all add: map_handler_result_def)

lemmas file_defs =
  next_io_def io_call_def io_then_def io_return_def File_len_def File_seek_start_def File_seek_end_def
  File_read_to_end_def File_write_all_def File_set_len_def File_sync_all_def

lemmas handler_defs =
  FileHandler_read_all_def FileHandler_write_at_def FileHandler_append_def
  FileHandler_set_len_def FileHandler_sync_all_def file_defs

section \<open>The contract of a handler that meets no failure\<close>

text \<open>
  What the log needs of its file, and what the data and index files need besides: positioned
  writes. The client lemmas speak of sequences of requests.
\<close>

locale log_file =
  fixes content :: "'h \<Rightarrow> bytes"
    and ready :: "'h \<Rightarrow> bool"
    and append :: "bytes \<Rightarrow> 'h \<Rightarrow> (io_error + u64) \<times> 'h"
    and read_all :: "'h \<Rightarrow> (io_error + bytes) \<times> 'h"
    and set_len :: "u64 \<Rightarrow> 'h \<Rightarrow> (io_error + unit) \<times> 'h"
    and sync_all :: "'h \<Rightarrow> (io_error + unit) \<times> 'h"
  assumes append_ok: "ready h \<Longrightarrow> \<exists>h'. append data h = (Inr (of_nat (length (content h))), h')
        \<and> ready h' \<and> content h' = content h @ data"
    and read_all_ok: "ready h \<Longrightarrow> \<exists>h'. read_all h = (Inr (content h), h')
        \<and> ready h' \<and> content h' = content h"
    and truncate_ok: "ready h \<Longrightarrow> \<exists>h'. set_len 0 h = (Inr (), h') \<and> ready h' \<and> content h' = []"
    and sync_ok: "ready h \<Longrightarrow> \<exists>h'. sync_all h = (Inr (), h') \<and> ready h' \<and> content h' = content h"
begin

lemma append_all:
  "ready h \<Longrightarrow> ready (fold (\<lambda>d h. snd (append d h)) ds h)
     \<and> content (fold (\<lambda>d h. snd (append d h)) ds h) = content h @ concat ds"
proof (induction ds arbitrary: h)
  case Nil
  then show ?case by simp
next
  case (Cons d ds)
  obtain h' where "append d h = (Inr (of_nat (length (content h))), h')" "ready h'"
    "content h' = content h @ d"
    using append_ok [OF Cons.prems] by blast
  with Cons.IH [of h'] show ?case by simp
qed

lemma append_all_read:
  assumes "ready h"
  shows "fst (read_all (fold (\<lambda>d h. snd (append d h)) ds h)) = Inr (content h @ concat ds)"
  using append_all [OF assms, of ds] read_all_ok by force

end

locale data_file = log_file +
  fixes write_at :: "u64 \<Rightarrow> bytes \<Rightarrow> 'h \<Rightarrow> (io_error + unit) \<times> 'h"
  assumes write_at_ok: "ready h \<Longrightarrow> unat pos + length data \<le> length (content h) \<or> unat pos = length (content h)
      \<Longrightarrow> \<exists>h'. write_at pos data h = (Inr (), h') \<and> ready h'
        \<and> content h' = splice (unat pos) data (content h)"
begin

text \<open>Overwriting a region changes nothing before or after it.\<close>

lemma write_at_mid:
  assumes "ready h" and "content h = pre @ mid @ post" and "unat pos = length pre"
    and "length data = length mid"
  shows "\<exists>h'. write_at pos data h = (Inr (), h') \<and> ready h' \<and> content h' = pre @ data @ post"
  using write_at_ok [OF assms(1), of pos data] assms by (auto simp: splice_mid)

text \<open>Truncating and writing from the start replaces the whole content.\<close>

lemma replace_content:
  assumes "ready h"
  shows "\<exists>h1 h2. set_len 0 h = (Inr (), h1) \<and> write_at 0 data h1 = (Inr (), h2) \<and> ready h2
    \<and> content h2 = data"
proof -
  obtain h1 where h1: "set_len 0 h = (Inr (), h1)" "ready h1" "content h1 = []"
    using truncate_ok [OF assms] by blast
  then obtain h2 where "write_at 0 data h1 = (Inr (), h2)" "ready h2"
    "content h2 = splice 0 data []"
    using write_at_ok [of h1 0 data] by auto
  with h1 show ?thesis by (auto simp: splice_def)
qed

end

text \<open>Handlers whose calls all succeed, and among them those not opened for appending.\<close>

definition handler_ready :: "FileHandler \<Rightarrow> bool" where
  "handler_ready h = (f_plan h = [] \<and> f_late h = None)"

definition handler_seekable :: "FileHandler \<Rightarrow> bool" where
  "handler_seekable h = (handler_ready h \<and> \<not> f_append h)"

lemma write_bytes_frame [simp]:
  "f_append (write_bytes data f) = f_append f"
  "f_plan (write_bytes data f) = f_plan f"
  "f_late (write_bytes data f) = f_late f"
  by (simp_all add: write_bytes_def Let_def)

lemma write_bytes_at_end:
  "f_append f \<or> f_pos f = length (f_bytes f) \<Longrightarrow> f_bytes (write_bytes data f) = f_bytes f @ data"
  by (auto simp: write_bytes_def Let_def splice_end)

interpretation log_handler: log_file f_bytes handler_ready FileHandler_append
    FileHandler_read_all FileHandler_set_len FileHandler_sync_all
  by unfold_locales
    (simp_all add: handler_ready_def handler_defs write_bytes_at_end zero_extend_def)

interpretation data_handler: data_file f_bytes handler_seekable FileHandler_append
    FileHandler_read_all FileHandler_set_len FileHandler_sync_all FileHandler_write_at
  by unfold_locales
    (auto simp: handler_seekable_def handler_ready_def handler_defs write_bytes_at_end zero_extend_def
      write_bytes_def splice_def Let_def)

section \<open>Files whose failures are clean\<close>

text \<open>A call may fail at any point, but a write that fails has written nothing.\<close>

fun clean_outcome :: "io_outcome \<Rightarrow> bool" where
  "clean_outcome IoOk = True"
| "clean_outcome (IoFail e n) = (n = 0)"
| "clean_outcome (IoLate e n) = (n = 0)"

definition failing_cleanly :: "FileHandler \<Rightarrow> bool" where
  "failing_cleanly h = list_all clean_outcome (f_plan h)"

definition data_handle :: "FileHandler \<Rightarrow> bool" where
  "data_handle h = (failing_cleanly h \<and> \<not> f_append h)"

abbreviation late :: "FileHandler \<Rightarrow> bool" where
  "late h \<equiv> f_late h \<noteq> None"

lemma plan_cases:
  obtains "f_plan h = []" | o1 where "f_plan h = [o1]" | o1 o2 p where "f_plan h = o1 # o2 # p"
  by (metis list.exhaust)

lemma write_bytes_Nil [simp]: "write_bytes [] f = f"
  by (simp add: write_bytes_def)

text \<open>
  A request that says it wrote has written, or the failure of its write is pending; while one is
  pending no request can write. A request that reports an error leaves the content alone.
\<close>

locale failing_file =
  fixes content :: "'h \<Rightarrow> bytes"
    and handle :: "'h \<Rightarrow> bool"
    and pending :: "'h \<Rightarrow> bool"
    and append :: "bytes \<Rightarrow> 'h \<Rightarrow> (io_error + u64) \<times> 'h"
    and write_at :: "u64 \<Rightarrow> bytes \<Rightarrow> 'h \<Rightarrow> (io_error + unit) \<times> 'h"
    and set_len :: "u64 \<Rightarrow> 'h \<Rightarrow> (io_error + unit) \<times> 'h"
    and sync_all :: "'h \<Rightarrow> (io_error + unit) \<times> 'h"
  assumes append_any: "handle h \<Longrightarrow> data \<noteq> [] \<Longrightarrow> \<exists>r h'. append data h = (r, h') \<and> handle h'
        \<and> (r = Inr (of_nat (length (content h))) \<and> \<not> pending h
             \<and> (pending h' \<and> content h' = content h \<or> \<not> pending h' \<and> content h' = content h @ data)
           \<or> (\<exists>e. r = Inl e) \<and> content h' = content h)"
    and write_at_any: "handle h \<Longrightarrow> data \<noteq> []
      \<Longrightarrow> unat pos + length data \<le> length (content h) \<or> unat pos = length (content h)
      \<Longrightarrow> \<exists>r h'. write_at pos data h = (r, h') \<and> handle h'
        \<and> (r = Inr () \<and> \<not> pending h
             \<and> (pending h' \<and> content h' = content h \<or> \<not> pending h' \<and> content h' = splice (unat pos) data (content h))
           \<or> (\<exists>e. r = Inl e) \<and> content h' = content h)"
    and write_pending: "handle h \<Longrightarrow> pending h \<Longrightarrow> data \<noteq> []
      \<Longrightarrow> \<exists>e h'. write_at pos data h = (Inl e, h') \<and> handle h' \<and> content h' = content h"
    and write_nothing: "handle h \<Longrightarrow> \<exists>r h'. write_at pos [] h = (r, h') \<and> handle h' \<and> content h' = content h"
    and truncate_any: "handle h \<Longrightarrow> \<exists>r h'. set_len 0 h = (r, h') \<and> handle h'
        \<and> (r = Inr () \<and> content h' = [] \<or> (\<exists>e. r = Inl e) \<and> content h' = content h)"
    and sync_any: "handle h \<Longrightarrow> \<exists>r h'. sync_all h = (r, h') \<and> handle h' \<and> content h' = content h
        \<and> (pending h' \<longleftrightarrow> pending h)"
begin

lemma write_at_mid_any:
  assumes "handle h" and "content h = pre @ mid @ post" and "unat pos = length pre" and "length data = length mid"
    and "data \<noteq> []"
  shows "\<exists>r h'. write_at pos data h = (r, h') \<and> handle h'
    \<and> (r = Inr () \<and> \<not> pending h \<and> (pending h' \<and> content h' = content h \<or> \<not> pending h' \<and> content h' = pre @ data @ post)
       \<or> (\<exists>e. r = Inl e) \<and> content h' = content h)"
  using write_at_any [OF assms(1,5), of pos] assms by (auto simp: splice_mid)

text \<open>Writing from the start of an empty file, whether there is something to write or not.\<close>

lemma write_at_empty_any:
  assumes "handle h" and "content h = []"
  shows "\<exists>r h'. write_at 0 data h = (r, h') \<and> handle h' \<and> content h' \<in> {[], data}"
proof (cases "data = []")
  case True
  then show ?thesis using write_nothing [OF assms(1), of 0] assms(2) by auto
next
  case False
  then show ?thesis using write_at_any [OF assms(1) False, of 0] assms(2) by (auto simp: splice_def split: if_split_asm)
qed

end

lemmas failing_defs = data_handle_def failing_cleanly_def handler_defs

interpretation failing: failing_file f_bytes data_handle late FileHandler_append FileHandler_write_at
    FileHandler_set_len FileHandler_sync_all
proof (unfold_locales, goal_cases)
  case (1 h data)
  then show ?case
    by (cases h rule: plan_cases; cases "f_late h")
      (auto simp: failing_defs write_bytes_at_end elim!: clean_outcome.elims)
next
  case (2 h data pos)
  then show ?case
    by (cases h rule: plan_cases; cases "f_late h")
      (auto simp: failing_defs write_bytes_def splice_def zero_extend_def Let_def elim!: clean_outcome.elims)
next
  case (3 h data pos)
  then show ?case
    by (cases h rule: plan_cases) (auto simp: failing_defs elim!: clean_outcome.elims)
next
  case (4 h pos)
  then show ?case
    by (cases h rule: plan_cases) (auto simp: failing_defs elim!: clean_outcome.elims)
next
  case (5 h)
  then show ?case
    by (cases h rule: plan_cases) (auto simp: failing_defs zero_extend_def elim!: clean_outcome.elims)
next
  case (6 h)
  then show ?case
    by (cases h rule: plan_cases) (auto simp: failing_defs elim!: clean_outcome.elims)
qed

end
