(* ===== verification/Write_Ahead_Log.thy ===== *)
theory Write_Ahead_Log
  imports Wal_Codec File_Handler
begin

text \<open>
  \<^verbatim>\<open>src/db/wal.rs\<close>: the log, its file and the entries not yet checkpointed. An operation
  returns its result with the log as it leaves it, also when it fails.
\<close>

section \<open>Operations\<close>

record Wal =
  wal_file :: FileHandler
  wal_entries :: "WalEntry list"

definition Wal_replay :: "third_party \<Rightarrow> Wal \<Rightarrow> WalEntry list PDBResult \<times> Wal" where
  "Wal_replay X wal =
     (case FileHandler_read_all (wal_file wal) of
        (Inl e, h) \<Rightarrow> (Inl (Err (map_file_handler_error e)), wal\<lparr>wal_file := h\<rparr>)
      | (Inr file_buffer, h) \<Rightarrow>
          (case decode_wal X file_buffer of
             Inl e \<Rightarrow> (Inl e, wal\<lparr>wal_file := h\<rparr>)
           | Inr es \<Rightarrow> (Inr es, wal\<lparr>wal_file := h, wal_entries := es\<rparr>)))"

text \<open>The argument is what \<open>OpenOptions::open\<close> returned for the path.\<close>

definition Wal_open :: "third_party \<Rightarrow> io_error + File \<Rightarrow> Wal PDBResult" where
  "Wal_open X opened =
     and_then (from_io opened) (\<lambda>file.
     and_then (map_handler_result (FileHandler_spawn file)) (\<lambda>file.
     let wal = \<lparr>wal_file = file, wal_entries = []\<rparr> in
     case Wal_replay X wal of
       (Inl e, _) \<Rightarrow> Inl e
     | (Inr _, wal) \<Rightarrow> Inr wal))"

definition Wal_append_entry :: "WalEntry \<Rightarrow> Wal \<Rightarrow> unit PDBResult \<times> Wal" where
  "Wal_append_entry entry wal =
     (let bs = WalEncoder_finish (WalEncoder_encode_wal_entry entry WalEncoder_new) in
      case FileHandler_append bs (wal_file wal) of
        (Inl e, h) \<Rightarrow> (Inl (Err (map_file_handler_error e)), wal\<lparr>wal_file := h\<rparr>)
      | (Inr _, h) \<Rightarrow>
          let wal = wal\<lparr>wal_file := h, wal_entries := wal_entries wal @ [entry]\<rparr> in
          (case FileHandler_sync_all h of
             (Inl e, h) \<Rightarrow> (Inl (Err (map_file_handler_error e)), wal\<lparr>wal_file := h\<rparr>)
           | (Inr _, h) \<Rightarrow> (Inr (), wal\<lparr>wal_file := h\<rparr>)))"

definition Wal_checkpoint :: "Wal \<Rightarrow> unit PDBResult \<times> Wal" where
  "Wal_checkpoint wal =
     (let wal = wal\<lparr>wal_entries := []\<rparr> in
      case FileHandler_set_len 0 (wal_file wal) of
        (Inl e, h) \<Rightarrow> (Inl (Err (map_file_handler_error e)), wal\<lparr>wal_file := h\<rparr>)
      | (Inr _, h) \<Rightarrow>
          (case FileHandler_sync_all h of
             (Inl e, h) \<Rightarrow> (Inl (Err (map_file_handler_error e)), wal\<lparr>wal_file := h\<rparr>)
           | (Inr _, h) \<Rightarrow> (Inr (), wal\<lparr>wal_file := h\<rparr>)))"

definition Wal_pop_uncommited_entries :: "Wal \<Rightarrow> WalEntry list PDBResult" where
  "Wal_pop_uncommited_entries wal = Inr (wal_entries wal)"

section \<open>The invariant\<close>

text \<open>
  The entries in memory are what the file holds. The file was opened for appending; \<open>ready\<close>
  says that its remaining calls succeed.
\<close>

definition wal_inv :: "Wal \<Rightarrow> bool" where
  "wal_inv wal =
     (f_bytes (wal_file wal) = wal_bytes (wal_entries wal)
      \<and> (\<forall>e \<in> set (wal_entries wal). storable_entry e))"

definition wal_ready :: "Wal \<Rightarrow> bool" where
  "wal_ready wal = handler_ready (wal_file wal)"

lemma Wal_append_entry_ok:
  assumes "wal_ready wal"
  shows "\<exists>wal'. Wal_append_entry entry wal = (Inr (), wal') \<and> wal_ready wal'
    \<and> wal_entries wal' = wal_entries wal @ [entry]
    \<and> f_bytes (wal_file wal') = f_bytes (wal_file wal) @ wal_entry_bytes entry"
proof -
  obtain h1 where h1: "FileHandler_append (wal_entry_bytes entry) (wal_file wal)
      = (Inr (of_nat (length (f_bytes (wal_file wal)))), h1)" "handler_ready h1"
    "f_bytes h1 = f_bytes (wal_file wal) @ wal_entry_bytes entry"
    using log_handler.append_ok assms unfolding wal_ready_def by blast
  obtain h2 where "FileHandler_sync_all h1 = (Inr (), h2)" "handler_ready h2" "f_bytes h2 = f_bytes h1"
    using log_handler.sync_ok [OF h1(2)] by blast
  with h1 show ?thesis
    by (simp add: Wal_append_entry_def wal_entry_bytes_def wal_ready_def Let_def)
qed

lemma wal_inv_append:
  assumes "wal_ready wal" and "wal_inv wal" and "storable_entry entry"
  shows "wal_inv (snd (Wal_append_entry entry wal))"
  using Wal_append_entry_ok [OF assms(1), of entry] assms(2,3) by (auto simp: wal_inv_def)

lemma Wal_checkpoint_ok:
  assumes "wal_ready wal"
  shows "\<exists>wal'. Wal_checkpoint wal = (Inr (), wal') \<and> wal_ready wal'
    \<and> wal_entries wal' = [] \<and> f_bytes (wal_file wal') = []"
proof -
  obtain h1 where h1: "FileHandler_set_len 0 (wal_file wal) = (Inr (), h1)" "handler_ready h1"
    "f_bytes h1 = []"
    using log_handler.truncate_ok assms unfolding wal_ready_def by blast
  obtain h2 where "FileHandler_sync_all h1 = (Inr (), h2)" "handler_ready h2" "f_bytes h2 = f_bytes h1"
    using log_handler.sync_ok [OF h1(2)] by blast
  with h1 show ?thesis by (simp add: Wal_checkpoint_def wal_ready_def Let_def)
qed

text \<open>
  The two requests of an append, with the mutex of the log held across both: after the first the entry is
  in the file, or its failure is pending, and in memory.
\<close>

definition append_write :: "WalEntry \<Rightarrow> Wal \<Rightarrow> unit PDBResult \<times> Wal" where
  "append_write entry wal =
     (case FileHandler_append (WalEncoder_finish (WalEncoder_encode_wal_entry entry WalEncoder_new)) (wal_file wal) of
        (Inl e, h) \<Rightarrow> (Inl (Err (map_file_handler_error e)), wal\<lparr>wal_file := h\<rparr>)
      | (Inr _, h) \<Rightarrow> (Inr (), wal\<lparr>wal_file := h, wal_entries := wal_entries wal @ [entry]\<rparr>))"

definition append_sync :: "Wal \<Rightarrow> unit PDBResult \<times> Wal" where
  "append_sync wal =
     (case FileHandler_sync_all (wal_file wal) of
        (Inl e, h) \<Rightarrow> (Inl (Err (map_file_handler_error e)), wal\<lparr>wal_file := h\<rparr>)
      | (Inr _, h) \<Rightarrow> (Inr (), wal\<lparr>wal_file := h\<rparr>))"

lemma Wal_append_entry_split:
  "Wal_append_entry entry wal =
     (case append_write entry wal of (Inl e, wal) \<Rightarrow> (Inl e, wal) | (Inr _, wal) \<Rightarrow> append_sync wal)"
  by (simp add: Wal_append_entry_def append_write_def append_sync_def Let_def split: prod.split sum.split)

lemma append_write_ok:
  assumes "wal_ready wal"
  shows "\<exists>wal'. append_write entry wal = (Inr (), wal') \<and> wal_ready wal'
    \<and> wal_entries wal' = wal_entries wal @ [entry]
    \<and> f_bytes (wal_file wal') = f_bytes (wal_file wal) @ wal_entry_bytes entry"
proof -
  obtain h1 where "FileHandler_append (wal_entry_bytes entry) (wal_file wal)
      = (Inr (of_nat (length (f_bytes (wal_file wal)))), h1)" "handler_ready h1"
    "f_bytes h1 = f_bytes (wal_file wal) @ wal_entry_bytes entry"
    using log_handler.append_ok assms unfolding wal_ready_def by blast
  then show ?thesis by (simp add: append_write_def wal_entry_bytes_def wal_ready_def)
qed

lemma append_sync_ok:
  assumes "wal_ready wal"
  shows "\<exists>wal'. append_sync wal = (Inr (), wal') \<and> wal_ready wal' \<and> wal_entries wal' = wal_entries wal
    \<and> f_bytes (wal_file wal') = f_bytes (wal_file wal)"
  using log_handler.sync_ok [of "wal_file wal"] assms by (auto simp: append_sync_def wal_ready_def)

lemma FileHandler_sync_keeps:
  "f_bytes (snd (FileHandler_sync_all h)) = f_bytes h" "f_late (snd (FileHandler_sync_all h)) = f_late h"
  by (simp_all add: handler_defs split: list.split io_outcome.split)

section \<open>Opening a log again\<close>

lemma Wal_open_decode:
  assumes "f_plan f = []"
  shows "Wal_open X (Inr f) = map_sum id (\<lambda>es. \<lparr>wal_file = f\<lparr>f_pos := length (f_bytes f)\<rparr>, wal_entries = es\<rparr>)
    (decode_wal X (f_bytes f))"
  using assms
  by (simp add: Wal_open_def Wal_replay_def handler_defs FileHandler_spawn_def from_io_def Let_def
      split: sum.split)


lemma Wal_open_prefix_fails:
  assumes "byteorder X" and "f_plan f = []" and "f_bytes f = wal_bytes es @ take n (wal_entry_bytes e)"
    and "\<forall>x \<in> set (e # es). storable_entry x" and "0 < n" and "n < length (wal_entry_bytes e)"
  shows "Wal_open X (Inr f) = Inl (Err (Io eof_error))"
proof -
  have "decode_wal X (wal_bytes es @ take n (wal_entry_bytes e)) = Inl (Err (Io eof_error))"
    by (rule byteorder.decode_wal_torn [OF assms(1), where e = e and zs = "drop n (wal_entry_bytes e)"])
      (use assms in simp_all)
  then show ?thesis using assms(2,3) by (simp add: Wal_open_decode)
qed

text \<open>What a log file holds once the calls on it succeed again.\<close>

definition healed :: "File \<Rightarrow> File" where
  "healed f = f\<lparr>f_late := None, f_plan := []\<rparr>"

lemma healed_simps [simp]: "f_plan (healed f) = []" "f_late (healed f) = None" "f_bytes (healed f) = f_bytes f"
  by (simp_all add: healed_def)

lemma Wal_appends_ok:
  assumes "wal_ready wal" and "wal_inv wal" and "\<forall>e \<in> set es. storable_entry e"
  shows "wal_ready (fold (\<lambda>e wal. snd (Wal_append_entry e wal)) es wal)
    \<and> wal_inv (fold (\<lambda>e wal. snd (Wal_append_entry e wal)) es wal)
    \<and> wal_entries (fold (\<lambda>e wal. snd (Wal_append_entry e wal)) es wal) = wal_entries wal @ es"
  using assms
proof (induction es arbitrary: wal)
  case (Cons e es)
  obtain wal' where wal': "Wal_append_entry e wal = (Inr (), wal')" "wal_ready wal'"
    "wal_entries wal' = wal_entries wal @ [e]"
    using Wal_append_entry_ok [OF Cons.prems(1)] by blast
  moreover have "wal_inv wal'"
    using wal_inv_append [OF Cons.prems(1,2), of e] Cons.prems(3) wal' by simp
  ultimately show ?case using Cons.IH [of wal'] Cons.prems(3) by simp
qed simp

lemma Wal_open_inv:
  assumes "byteorder X" and "wal_inv wal"
  shows "\<exists>wal'. Wal_open X (Inr (healed (wal_file wal))) = Inr wal' \<and> wal_inv wal'
    \<and> wal_ready wal' \<and> wal_entries wal' = wal_entries wal"
  using assms(2) byteorder.decode_wal_bytes [OF assms(1), of "wal_entries wal"]
  by (simp add: Wal_open_decode wal_inv_def wal_ready_def handler_ready_def)

text \<open>A log whose last entry has a key of \<open>2 ^ 16\<close> bytes: its length field holds 0.\<close>

lemma long_key_log_not_opened:
  assumes "byteorder X" and "wal_ready wal" and "wal_inv wal" and "Key_len k = 2 ^ 16"
    and "2 ^ 16 + length (bytes_from_field f) < unat (from_le_bytes (take 4 (Key_as_bytes k)) :: u32)"
  shows "\<exists>wal'. Wal_append_entry (WalEntry.Set k f) wal = (Inr (), wal')
    \<and> wal_ready wal' \<and> Wal_open X (Inr (wal_file wal')) = Inl (Err (Io eof_error))"
proof -
  obtain wal' where wal': "Wal_append_entry (WalEntry.Set k f) wal = (Inr (), wal')" "wal_ready wal'"
    "f_bytes (wal_file wal') = f_bytes (wal_file wal) @ wal_entry_bytes (WalEntry.Set k f)"
    using Wal_append_entry_ok [OF assms(2)] by blast
  moreover have "Wal_open X (Inr (wal_file wal')) = Inl (Err (Io eof_error))"
    using byteorder.decode_wal_long_key [OF assms(1) _ assms(4,5), of "wal_entries wal"] wal' assms(3)
    by (simp add: Wal_open_decode wal_ready_def handler_ready_def wal_inv_def)
  ultimately show ?thesis by blast
qed

section \<open>Properties\<close>





end
