(* ===== verification/Database.thy ===== *)
theory Database
  imports Index_Codec Write_Ahead_Log
begin

text \<open>
  \<^verbatim>\<open>src/db/db.rs\<close>: the storage engine. A \<open>Database\<close> is its in-memory state, the log and the
  handlers of the data and index files; an operation returns its result with the database as
  it leaves it. The operations are modelled as they run when no other task interleaves with
  them, so taking a lock is the identity. Hash maps are iterated in the order the argument
  \<open>ord\<close> gives; the files of a database are passed to \<open>open\<close> as \<open>OpenOptions::open\<close> returned them.
\<close>

definition RECORD_COUNT_OFFSET :: u64 where "RECORD_COUNT_OFFSET = 34"

record State =
  st_fields :: "Field hashmap"
  st_index :: "IndexEntry hashmap"

record Database =
  db_state :: State
  db_wal :: Wal
  db_file :: FileHandler
  db_index_file :: FileHandler

section \<open>Opening\<close>

definition is_new_file :: "bool io" where
  "is_new_file = io_then File_len (\<lambda>n. io_return (n = 0))"

text \<open>A fresh database: the second component is the data file as the call leaves it.\<close>

definition Database_new :: "rstring \<Rightarrow> File \<Rightarrow> File \<Rightarrow> Wal \<Rightarrow> Database PDBResult \<times> File" where
  "Database_new name file index_file wal =
     (let meta = \<lparr>meta_version = 1, meta_record_count = 0, meta_name = name\<rparr> in
      case File_set_len 0 file of
        (Inl e, file) \<Rightarrow> (from_io (Inl e), file)
      | (Inr _, file) \<Rightarrow>
          (let header = DBEncoder_finish (DBEncoder_encode_db_header meta DBEncoder_new) in
           case File_write_all header file of
             (Inl e, file) \<Rightarrow> (from_io (Inl e), file)
           | (Inr _, file) \<Rightarrow>
               (and_then (map_handler_result (FileHandler_spawn file)) (\<lambda>fh.
                and_then (map_handler_result (FileHandler_spawn index_file)) (\<lambda>ifh.
                Inr \<lparr>db_state = \<lparr>st_fields = hm_new, st_index = hm_new\<rparr>,
                     db_wal = wal, db_file = fh, db_index_file = ifh\<rparr>)), file)))"

fun apply_wal_entry :: "WalEntry \<Rightarrow> Field hashmap \<Rightarrow> Field hashmap" where
  "apply_wal_entry (WalEntry.Set key field) fs = hm_insert key field fs"
| "apply_wal_entry (WalEntry.Delete key) fs = hm_remove key fs"

text \<open>The index comes from the index file, or from the data file when that is empty.\<close>

definition load_index :: "third_party \<Rightarrow> bytes \<Rightarrow> bytes \<Rightarrow> IndexEntry hashmap PDBResult" where
  "load_index X file_buf index_file_buf =
     (if index_file_buf \<noteq> [] then decode_index X index_file_buf
      else decode_index_from_db X file_buf)"

definition Database_init :: "third_party \<Rightarrow> File \<Rightarrow> File \<Rightarrow> Wal \<Rightarrow> Database PDBResult" where
  "Database_init X file index_file wal =
     (case io_then File_len (\<lambda>_. File_read_to_end) file of
        (Inl e, _) \<Rightarrow> from_io (Inl e)
      | (Inr file_buf, file) \<Rightarrow>
     (case io_then File_len (\<lambda>_. File_read_to_end) index_file of
        (Inl e, _) \<Rightarrow> from_io (Inl e)
      | (Inr index_file_buf, index_file) \<Rightarrow>
          and_then (decode_db X file_buf) (\<lambda>(fs, _).
          and_then (load_index X file_buf index_file_buf) (\<lambda>index.
          and_then (Wal_pop_uncommited_entries wal) (\<lambda>entries.
          let fs = fold apply_wal_entry entries fs in
          and_then (map_handler_result (FileHandler_spawn file)) (\<lambda>fh.
          and_then (map_handler_result (FileHandler_spawn index_file)) (\<lambda>ifh.
          Inr \<lparr>db_state = \<lparr>st_fields = fs, st_index = index\<rparr>,
               db_wal = wal, db_file = fh, db_index_file = ifh\<rparr>)))))))"

text \<open>
  \<open>open\<close> is given the results of opening \<open>name.db\<close>, \<open>name.dbidx\<close> and \<open>name.wal\<close>, and returns
  with the database what it leaves of \<open>name.db\<close>, the only file it may write.
\<close>

definition Database_open ::
    "third_party \<Rightarrow> rstring \<Rightarrow> io_error + File \<Rightarrow> io_error + File \<Rightarrow> io_error + File
     \<Rightarrow> Database PDBResult \<times> (io_error + File)" where
  "Database_open X name opened_db opened_idx opened_wal =
     (if length name > 64 then (Inl (Err DBNameToLong), opened_db)
      else
        case opened_db of
          Inl e \<Rightarrow> (from_io (Inl e), opened_db)
        | Inr file \<Rightarrow>
        case opened_idx of
          Inl e \<Rightarrow> (from_io (Inl e), opened_db)
        | Inr index_file \<Rightarrow>
        case is_new_file file of
          (Inl e, file) \<Rightarrow> (from_io (Inl e), Inr file)
        | (Inr db_is_new, file) \<Rightarrow>
        case is_new_file index_file of
          (Inl e, _) \<Rightarrow> (from_io (Inl e), Inr file)
        | (Inr index_is_new, index_file) \<Rightarrow>
        case Wal_open X opened_wal of
          Inl e \<Rightarrow> (Inl e, Inr file)
        | Inr wal \<Rightarrow>
            if db_is_new
            then (case Database_new name file index_file wal of (r, file) \<Rightarrow> (r, Inr file))
            else (Database_init X file index_file wal, Inr file))"

section \<open>Reading and writing\<close>

definition Database_get :: "Key \<Rightarrow> Database \<Rightarrow> Field PDBResult" where
  "Database_get key db =
     (case hm_get (st_fields (db_state db)) key of
        Some field \<Rightarrow> Inr field
      | None \<Rightarrow> Inl (Err KeyNotFound))"

definition update_fields :: "(Field hashmap \<Rightarrow> Field hashmap) \<Rightarrow> Database \<Rightarrow> Database" where
  "update_fields g db = db\<lparr>db_state := (db_state db)\<lparr>st_fields := g (st_fields (db_state db))\<rparr>\<rparr>"

definition Database_set :: "Key \<Rightarrow> Field \<Rightarrow> Database \<Rightarrow> unit PDBResult \<times> Database" where
  "Database_set key field db =
     (case Wal_append_entry (WalEntry.Set key field) (db_wal db) of
        (Inl e, wal) \<Rightarrow> (Inl e, db\<lparr>db_wal := wal\<rparr>)
      | (Inr _, wal) \<Rightarrow> (Inr (), update_fields (hm_insert key field) (db\<lparr>db_wal := wal\<rparr>)))"

definition Database_delete :: "Key \<Rightarrow> Database \<Rightarrow> unit PDBResult \<times> Database" where
  "Database_delete key db =
     (case Wal_append_entry (WalEntry.Delete key) (db_wal db) of
        (Inl e, wal) \<Rightarrow> (Inl e, db\<lparr>db_wal := wal\<rparr>)
      | (Inr _, wal) \<Rightarrow> (Inr (), update_fields (hm_remove key) (db\<lparr>db_wal := wal\<rparr>)))"

definition Database_keys :: "(Key list \<Rightarrow> Key list) \<Rightarrow> Database \<Rightarrow> Key list PDBResult" where
  "Database_keys ord db = Inr (hm_keys ord (st_fields (db_state db)))"

section \<open>Flushing\<close>

fun WalEntry_key :: "WalEntry \<Rightarrow> Key" where
  "WalEntry_key (WalEntry.Set k f) = k"
| "WalEntry_key (WalEntry.Delete k) = k"

fun is_delete :: "WalEntry \<Rightarrow> bool" where
  "is_delete (WalEntry.Set k f) = False"
| "is_delete (WalEntry.Delete k) = True"

text \<open>The last entry of each key.\<close>

definition net_entries :: "WalEntry list \<Rightarrow> WalEntry hashmap" where
  "net_entries entries = fold (\<lambda>entry net. hm_insert (WalEntry_key entry) entry net) entries hm_new"

text \<open>The deleted keys that have an index entry, with that entry.\<close>

definition make_delete_plan ::
    "(Key list \<Rightarrow> Key list) \<Rightarrow> WalEntry hashmap \<Rightarrow> IndexEntry hashmap \<Rightarrow> IndexEntry hashmap" where
  "make_delete_plan ord net index =
     fold (\<lambda>(key, entry) plan.
         if is_delete entry
         then (case hm_get index key of
                 Some index_entry \<Rightarrow> hm_insert key index_entry plan
               | None \<Rightarrow> plan)
         else plan)
       (hm_iter ord net) hm_new"

text \<open>The loop over the net entries: the file, the new index entries, the reused deleter.\<close>

fun flush_entries ::
    "third_party \<Rightarrow> IndexEntry hashmap \<Rightarrow> WalEntry list \<Rightarrow> FileHandler
     \<Rightarrow> (Key \<times> IndexEntry) list \<Rightarrow> DBDeleter \<Rightarrow> (Key \<times> IndexEntry) list PDBResult \<times> FileHandler" where
  "flush_entries X delete_plan [] file indexes deleter = (Inr indexes, file)"
| "flush_entries X delete_plan (WalEntry.Set key field # es) file indexes deleter =
     (let rec = encode X key field in
      case FileHandler_append rec file of
        (Inl e, file) \<Rightarrow> (map_handler_result (Inl e), file)
      | (Inr record_start, file) \<Rightarrow>
          flush_entries X delete_plan es file
            (indexes @ [(key, \<lparr>ie_offset = record_start, ie_key_len = of_nat (Key_len key),
                              ie_field_len = of_nat (length (bytes_from_field field))\<rparr>)])
            deleter)"
| "flush_entries X delete_plan (WalEntry.Delete key # es) file indexes deleter =
     (case hm_get delete_plan key of
        None \<Rightarrow> flush_entries X delete_plan es file indexes deleter
      | Some entry \<Rightarrow>
          (let deleter = DBDeleter_set_key_len (ie_key_len entry) deleter;
               deleter = DBDeleter_set_field_len (ie_field_len entry) deleter;
               deleter = DBDeleter_get_deleted_field deleter;
               deleted = DBDeleter_finish deleter
           in case FileHandler_write_at (ie_offset entry) deleted file of
                (Inl e, file) \<Rightarrow> (map_handler_result (Inl e), file)
              | (Inr _, file) \<Rightarrow>
                  flush_entries X delete_plan es file indexes (DBDeleter_reset deleter)))"

text \<open>What the flush does to the in-memory state once the data file is synced.\<close>

definition commit_state ::
    "(Key list \<Rightarrow> Key list) \<Rightarrow> (Key \<times> IndexEntry) list \<Rightarrow> IndexEntry hashmap \<Rightarrow> State \<Rightarrow> State" where
  "commit_state ord indexes delete_plan st =
     (let st = fold (\<lambda>(k, i) st. st\<lparr>st_index := hm_insert k i (st_index st)\<rparr>) indexes st
      in fold (\<lambda>key st. st\<lparr>st_index := hm_remove key (st_index st),
                          st_fields := hm_remove key (st_fields st)\<rparr>)
           (hm_keys ord delete_plan) st)"

definition Database_update_record_count :: "Database \<Rightarrow> unit PDBResult \<times> Database" where
  "Database_update_record_count db =
     (let count = of_nat (hm_len (st_fields (db_state db))) :: u64 in
      case FileHandler_write_at RECORD_COUNT_OFFSET (to_le_bytes 8 count) (db_file db) of
        (r, file) \<Rightarrow> (map_handler_result r, db\<lparr>db_file := file\<rparr>))"

definition Database_rebuild_index ::
    "(Key list \<Rightarrow> Key list) \<Rightarrow> Database \<Rightarrow> unit PDBResult \<times> Database" where
  "Database_rebuild_index ord db =
     (let encoder = IndexEncoder_encode_index_file ord (st_index (db_state db)) IndexEncoder_new in
      case FileHandler_set_len 0 (db_index_file db) of
        (Inl e, h) \<Rightarrow> (map_handler_result (Inl e), db\<lparr>db_index_file := h\<rparr>)
      | (Inr _, h) \<Rightarrow>
      case FileHandler_write_at 0 (IndexEncoder_finish encoder) h of
        (Inl e, h) \<Rightarrow> (map_handler_result (Inl e), db\<lparr>db_index_file := h\<rparr>)
      | (Inr _, h) \<Rightarrow>
      case FileHandler_sync_all h of
        (r, h) \<Rightarrow> (map_handler_result r, db\<lparr>db_index_file := h\<rparr>))"

definition Database_checkpoint :: "Database \<Rightarrow> unit PDBResult \<times> Database" where
  "Database_checkpoint db =
     (case Wal_checkpoint (db_wal db) of (r, wal) \<Rightarrow> (r, db\<lparr>db_wal := wal\<rparr>))"

text \<open>\<open>?\<close> between calls on the database.\<close>

definition db_then ::
    "(Database \<Rightarrow> unit PDBResult \<times> Database) \<Rightarrow> (Database \<Rightarrow> unit PDBResult \<times> Database)
     \<Rightarrow> Database \<Rightarrow> unit PDBResult \<times> Database" where
  "db_then m g db = (case m db of (Inl e, db) \<Rightarrow> (Inl e, db) | (Inr _, db) \<Rightarrow> g db)"

definition Database_flush ::
    "third_party \<Rightarrow> (Key list \<Rightarrow> Key list) \<Rightarrow> Database \<Rightarrow> unit PDBResult \<times> Database" where
  "Database_flush X ord db =
     (case Wal_pop_uncommited_entries (db_wal db) of
        Inl e \<Rightarrow> (Inl e, db)
      | Inr entries \<Rightarrow>
     (let net = net_entries entries;
          delete_plan = make_delete_plan ord net (st_index (db_state db))
      in case flush_entries X delete_plan (hm_into_values ord net) (db_file db) [] DBDeleter_new of
           (Inl e, file) \<Rightarrow> (Inl e, db\<lparr>db_file := file\<rparr>)
         | (Inr indexes, file) \<Rightarrow>
         case FileHandler_sync_all file of
           (Inl e, file) \<Rightarrow> (map_handler_result (Inl e), db\<lparr>db_file := file\<rparr>)
         | (Inr _, file) \<Rightarrow>
             (let db = db\<lparr>db_file := file,
                          db_state := commit_state ord indexes delete_plan (db_state db)\<rparr>
              in db_then Database_update_record_count
                   (db_then (Database_rebuild_index ord) Database_checkpoint) db)))"

end
