(* ===== verification/Flush_Slots.thy ===== *)
theory Flush_Slots
  imports Database
begin

text \<open>
  What \<open>Database::flush\<close> does to the data file, stated on slots instead of bytes: the log as
  updates of a map, the effect of one net entry on the slots (\<open>flush_slot\<close>), the versions of a
  key that are on disk (\<open>live_values\<close>), and the loop of the flush, whose appends and positioned
  writes are exactly those effects.
\<close>

section \<open>The log as updates of a map\<close>

fun entry_update :: "WalEntry \<Rightarrow> Field update" where
  "entry_update (WalEntry.Set k f) = (k, Some f)"
| "entry_update (WalEntry.Delete k) = (k, None)"

lemma fst_entry_update [simp]: "fst (entry_update e) = WalEntry_key e"
  by (cases e) simp_all

text \<open>The last value the log gives a key, if it mentions it.\<close>

definition logged :: "WalEntry list \<Rightarrow> Key \<Rightarrow> Field option option" where
  "logged es = last_update (map entry_update es)"

lemma logged_simps [simp]:
  "logged [] k = None"
  "logged (es @ [WalEntry.Set l f]) k = (if k = l then Some (Some f) else logged es k)"
  "logged (es @ [WalEntry.Delete l]) k = (if k = l then Some None else logged es k)"
  by (simp_all add: logged_def)

lemma hm_get_apply_wal:
  "hm_get (fold apply_wal_entry es m) k = (case logged es k of None \<Rightarrow> hm_get m k | Some v \<Rightarrow> v)"
proof -
  let ?u = "\<lambda>u m. case snd u of Some v \<Rightarrow> hm_insert (fst u) v m | None \<Rightarrow> hm_remove (fst u) m"
  have "apply_wal_entry e m = ?u (entry_update e) m" for e m by (cases e) simp_all
  then have "fold apply_wal_entry es m = fold ?u (map entry_update es) m"
    by (induction es arbitrary: m) simp_all
  then show ?thesis using hm.get_replay [of ?u "map entry_update es" m k] by (simp add: logged_def)
qed

lemma hm_wf_apply_wal: "hm_wf m \<Longrightarrow> hm_wf (fold apply_wal_entry es m)"
proof (induction es arbitrary: m)
  case (Cons e es)
  then show ?case by (cases e) simp_all
qed simp

lemma hm_get_net_entries_in:
  "hm_get (net_entries es) k = Some e \<Longrightarrow> WalEntry_key e = k \<and> e \<in> set es"
  unfolding net_entries_def by (induction es rule: rev_induct) (auto split: if_split_asm)

lemma logged_net: "logged es k = map_option (\<lambda>e. snd (entry_update e)) (hm_get (net_entries es) k)"
  unfolding net_entries_def
proof (induction es rule: rev_induct)
  case (snoc e es)
  then show ?case by (cases e) auto
qed simp

lemma hm_wf_net_entries [simp]: "hm_wf (net_entries es)"
  unfolding net_entries_def by (induction es rule: rev_induct) auto

text \<open>The net entries in iteration order: one per key, each among the logged ones.\<close>

lemma net_values_keys:
  assumes "hash_order ord"
  shows "map WalEntry_key (hm_into_values ord (net_entries es)) = map fst (hm_iter ord (net_entries es))"
proof -
  have "WalEntry_key (snd ke) = fst ke" if "ke \<in> set (hm_iter ord (net_entries es))" for ke
    using that set_hm_iter [OF assms, of "fst ke" "snd ke" "net_entries es"] hm_get_net_entries_in
    by auto
  then show ?thesis by (simp add: hm_into_values_def)
qed

lemma net_values_distinct:
  "hash_order ord \<Longrightarrow> distinct (map WalEntry_key (hm_into_values ord (net_entries es)))"
  by (simp add: net_values_keys distinct_hm_iter)

lemma in_net_values_iff:
  assumes "hash_order ord"
  shows "e \<in> set (hm_into_values ord (net_entries es)) \<longleftrightarrow> hm_get (net_entries es) (WalEntry_key e) = Some e"
  using set_hm_iter [OF assms, of _ _ "net_entries es"] hm_get_net_entries_in
  by (force simp: hm_into_values_def image_iff)

lemma hm_get_delete_plan:
  assumes "hash_order ord"
  shows "hm_get (make_delete_plan ord net index) k
    = (case hm_get net k of Some e \<Rightarrow> if is_delete e then hm_get index k else None | None \<Rightarrow> None)"
proof -
  let ?f = "\<lambda>(key, entry) plan.
         if is_delete entry
         then (case hm_get index key of
                 Some index_entry \<Rightarrow> hm_insert key index_entry plan | None \<Rightarrow> plan)
         else plan"
  have fold: "hm_get (fold ?f kes hm_new) k
      = (if \<exists>e. (k, e) \<in> set kes \<and> is_delete e then hm_get index k else None)" for kes
    by (induction kes rule: rev_induct) (auto split: option.split)
  show ?thesis
    unfolding make_delete_plan_def fold by (auto simp: set_hm_iter [OF assms] split: option.split)
qed

section \<open>The flush on slots\<close>

text \<open>
  What a flush means for the slots of the data file: a set appends a live slot, a delete turns
  the last live slot of its key into a tombstone.
\<close>

fun kill_slot :: "Key \<Rightarrow> slot \<Rightarrow> slot" where
  "kill_slot k (Live l f) =
     (if l = k then Dead (of_nat (Key_len l)) (of_nat (length (bytes_from_field f))) else Live l f)"
| "kill_slot k (Dead kl fl) = Dead kl fl"

fun kill_last :: "Key \<Rightarrow> slot list \<Rightarrow> slot list" where
  "kill_last k [] = []"
| "kill_last k (s # ss) = (if slots_map ss k = None then kill_slot k s # ss else s # kill_last k ss)"

fun flush_slot :: "WalEntry \<Rightarrow> slot list \<Rightarrow> slot list" where
  "flush_slot (WalEntry.Set k f) ss = ss @ [Live k f]"
| "flush_slot (WalEntry.Delete k) ss = kill_last k ss"

lemma kill_last_split:
  assumes "\<forall>g. Live k g \<notin> set post"
  shows "kill_last k (pre @ Live k f # post)
    = pre @ Dead (of_nat (Key_len k)) (of_nat (length (bytes_from_field f))) # post"
  using assms by (induction pre) (auto simp: slots_map_None_iff split: option.split)

lemma kill_last_absent: "slots_map ss k = None \<Longrightarrow> kill_last k ss = ss"
proof (induction ss)
  case (Cons s ss)
  then show ?case by (cases s) (auto split: option.split_asm if_split_asm)
qed simp

lemma slots_map_split:
  assumes "slots_map ss k \<noteq> None"
  obtains pre f post where "ss = pre @ Live k f # post" and "\<forall>g. Live k g \<notin> set post"
proof -
  have "slots_index undefined ss k \<noteq> None" using assms by (simp add: slots_index_None_iff)
  then show thesis using slots_index_Some that by blast
qed

lemma length_kill:
  assumes "storable_key k" and "storable_field f"
  shows "length (slot_bytes X (Dead (of_nat (Key_len k)) (of_nat (length (bytes_from_field f)))))
    = length (slot_bytes X (Live k f))"
  using storable_key_len [OF assms(1)] storable_field_len [OF assms(2)]
  by (simp add: length_tombstone_bytes length_record_bytes Key_len_def)

lemma kill_last_cases:
  assumes "\<forall>s \<in> set ss. storable_slot s"
  obtains (absent) "slots_map ss k = None" "kill_last k ss = ss"
  | (present) pre f post d where "ss = pre @ Live k f # post" "kill_last k ss = pre @ d # post"
    "d = Dead (of_nat (Key_len k)) (of_nat (length (bytes_from_field f)))"
    "\<And>X. length (slot_bytes X d) = length (slot_bytes X (Live k f))"
    "\<forall>g. Live k g \<notin> set post"
proof (cases "slots_map ss k = None")
  case True
  then show thesis using absent kill_last_absent by blast
next
  case False
  then obtain pre f post where ss: "ss = pre @ Live k f # post" "\<forall>g. Live k g \<notin> set post"
    by (rule slots_map_split)
  moreover have "storable_key k" "storable_field f" using assms ss by auto
  ultimately show thesis
    using present [OF ss(1) _ refl length_kill ss(2)] kill_last_split [OF ss(2)] by blast
qed

lemma kill_last_storable:
  assumes "\<forall>s \<in> set ss. storable_slot s"
  shows "\<forall>s \<in> set (kill_last k ss). storable_slot s"
  using assms by (cases rule: kill_last_cases [OF assms, of k]) auto

lemma kill_last_length:
  assumes "\<forall>s \<in> set ss. storable_slot s"
  shows "length (slots_bytes X (kill_last k ss)) = length (slots_bytes X ss)"
  using assms by (cases rule: kill_last_cases [OF assms, of k]) auto

lemma kill_last_other:
  assumes "\<forall>s \<in> set ss. storable_slot s" and "l \<noteq> k"
  shows "slots_index X (kill_last k ss) l = slots_index X ss l \<and> slots_map (kill_last k ss) l = slots_map ss l"
proof (cases rule: kill_last_cases [OF assms(1), of k])
  case 1
  then show ?thesis by simp
next
  case (2 pre f post d)
  have "length (slot_bytes X d) = length (slot_bytes X (Live k f))" by (rule 2(4))
  then show ?thesis
    using slots_index_kill_other [OF _ assms(2)] slots_map_kill_other [OF assms(2)]
    unfolding 2(2) by (simp only: 2(1,3))
qed

lemma flush_slot_storable:
  "storable_entry e \<Longrightarrow> \<forall>s \<in> set ss. storable_slot s \<Longrightarrow> \<forall>s \<in> set (flush_slot e ss). storable_slot s"
  using kill_last_storable by (cases e) auto

lemma flush_slot_other:
  assumes "\<forall>s \<in> set ss. storable_slot s" and "l \<noteq> WalEntry_key e"
  shows "slots_index X (flush_slot e ss) l = slots_index X ss l \<and> slots_map (flush_slot e ss) l = slots_map ss l"
  using assms kill_last_other [OF assms(1)] by (cases e) (simp_all add: slots_index_append_live)

text \<open>The live values of a key, oldest first: the versions of it that are on disk.\<close>

fun slot_values :: "Key \<Rightarrow> slot \<Rightarrow> Field list" where
  "slot_values k (Live l f) = (if l = k then [f] else [])"
| "slot_values k (Dead kl fl) = []"

definition live_values :: "slot list \<Rightarrow> Key \<Rightarrow> Field list" where
  "live_values ss k = concat (map (slot_values k) ss)"

lemma live_values_simps [simp]:
  "live_values [] k = []"
  "live_values (s # ss) k = slot_values k s @ live_values ss k"
  "live_values (ss @ ts) k = live_values ss k @ live_values ts k"
  by (simp_all add: live_values_def)

lemma slots_map_live_values:
  "slots_map ss k = (if live_values ss k = [] then None else Some (last (live_values ss k)))"
proof (induction ss)
  case (Cons s ss)
  then show ?case by (cases s) (auto split: option.split)
qed simp

lemma live_values_absent: "\<forall>g. Live k g \<notin> set ss \<Longrightarrow> live_values ss k = []"
  using slots_map_None_iff [of ss k] slots_map_live_values [of ss k] by (simp split: if_split_asm)

lemma live_values_kill_last:
  assumes "\<forall>s \<in> set ss. storable_slot s"
  shows "live_values (kill_last k ss) l = (if l = k then butlast (live_values ss k) else live_values ss l)"
proof (cases rule: kill_last_cases [OF assms, of k])
  case 1
  then show ?thesis by (simp add: slots_map_live_values split: if_split_asm)
next
  case (2 pre f post d)
  show ?thesis
    using live_values_absent [OF 2(5)] unfolding 2(2) by (simp add: 2(1,3))
qed

fun entry_values :: "WalEntry \<Rightarrow> Field list \<Rightarrow> Field list" where
  "entry_values (WalEntry.Set k f) vs = vs @ [f]"
| "entry_values (WalEntry.Delete k) vs = butlast vs"

lemma live_values_flush_slot:
  assumes "\<forall>s \<in> set ss. storable_slot s"
  shows "live_values (flush_slot e ss) l
    = (if l = WalEntry_key e then entry_values e (live_values ss l) else live_values ss l)"
  by (cases e) (auto simp: live_values_kill_last [OF assms])

section \<open>The loop of the flush\<close>

text \<open>The bytes an entry can add to the data file, and the entries that reach it.\<close>

fun record_size :: "WalEntry \<Rightarrow> nat" where
  "record_size (WalEntry.Set k f) = 14 + Key_len k + length (bytes_from_field f)"
| "record_size (WalEntry.Delete k) = 0"

definition written :: "IndexEntry hashmap \<Rightarrow> WalEntry list \<Rightarrow> WalEntry list" where
  "written plan es = filter (\<lambda>e. is_delete e \<longrightarrow> hm_get plan (WalEntry_key e) \<noteq> None) es"

lemma written_simps [simp]:
  "written plan [] = []"
  "written plan (WalEntry.Set k f # es) = WalEntry.Set k f # written plan es"
  "written plan (WalEntry.Delete k # es)
     = (if hm_get plan k = None then written plan es else WalEntry.Delete k # written plan es)"
  by (simp_all add: written_def)

lemma flush_slots_storable:
  "\<forall>e \<in> set es. storable_entry e \<Longrightarrow> \<forall>s \<in> set ss. storable_slot s
    \<Longrightarrow> \<forall>s \<in> set (fold flush_slot es ss). storable_slot s"
proof (induction es arbitrary: ss)
  case (Cons e es)
  then show ?case using flush_slot_storable [of e ss] by simp
qed simp

lemma flush_slots_other:
  assumes "\<forall>e \<in> set es. storable_entry e" and "\<forall>s \<in> set ss. storable_slot s"
    and "l \<notin> WalEntry_key ` set es"
  shows "slots_index X (fold flush_slot es ss) l = slots_index X ss l"
  using assms
proof (induction es arbitrary: ss)
  case (Cons e es)
  then show ?case using flush_slot_storable flush_slot_other [of ss l e X] by auto
qed simp

lemma flush_slots_values:
  assumes "\<forall>e \<in> set es. storable_entry e" and "\<forall>s \<in> set ss. storable_slot s"
    and "distinct (map WalEntry_key es)"
  shows "live_values (fold flush_slot es ss) k
    = (case find (\<lambda>e. WalEntry_key e = k) es of None \<Rightarrow> live_values ss k
       | Some e \<Rightarrow> entry_values e (live_values ss k))"
  using assms
proof (induction es arbitrary: ss)
  case (Cons e es)
  have none: "find (\<lambda>e'. WalEntry_key e' = WalEntry_key e) es = None"
    using Cons.prems(3) unfolding find_None_iff by (metis distinct.simps(2) image_eqI image_set list.simps(9))
  show ?case
    using Cons.IH [of "flush_slot e ss"] Cons.prems none
    by (auto simp: flush_slot_storable live_values_flush_slot split: option.split)
qed simp

lemma flush_slots_length:
  assumes "\<forall>s \<in> set ss. storable_slot s" and "\<forall>e \<in> set es. storable_entry e"
  shows "length (slots_bytes X (fold flush_slot es ss)) = length (slots_bytes X ss) + sum_list (map record_size es)"
  using assms
proof (induction es arbitrary: ss)
  case (Cons e es)
  then have "length (slots_bytes X (flush_slot e ss)) = length (slots_bytes X ss) + record_size e"
    by (cases e) (simp_all add: length_record_bytes kill_last_length)
  with Cons flush_slot_storable [of e ss] show ?case by simp
qed simp

lemma FileHandler_write_at_plain:
  "handler_seekable h \<Longrightarrow> \<exists>h'. FileHandler_write_at pos data h = (Inr (), h') \<and> handler_seekable h'"
  by (simp add: handler_seekable_def handler_ready_def handler_defs)

lemma flush_entries_plain:
  "handler_seekable h \<Longrightarrow> \<exists>new h'. flush_entries X plan es h idxs dl = (Inr (idxs @ new), h') \<and> handler_seekable h'"
proof (induction es arbitrary: h idxs dl)
  case (Cons e es)
  show ?case
  proof (cases e)
    case (Set k f)
    obtain h1 where h1: "FileHandler_append (encode X k f) h = (Inr (of_nat (length (f_bytes h))), h1)" "handler_seekable h1"
      using data_handler.append_ok [OF Cons.prems] by blast
    let ?i = "\<lparr>ie_offset = of_nat (length (f_bytes h)), ie_key_len = of_nat (Key_len k),
      ie_field_len = of_nat (length (bytes_from_field f))\<rparr>"
    obtain new h' where "flush_entries X plan es h1 (idxs @ [(k, ?i)]) dl = (Inr ((idxs @ [(k, ?i)]) @ new), h')"
      "handler_seekable h'"
      using Cons.IH [OF h1(2)] by blast
    then show ?thesis using h1(1) by (intro exI [of _ "(k, ?i) # new"] exI [of _ h']) (simp add: Set Let_def)
  next
    case (Delete k)
    show ?thesis
    proof (cases "hm_get plan k")
      case None
      then show ?thesis using Cons by (simp add: Delete)
    next
      case (Some i)
      let ?dl = "DBDeleter_get_deleted_field (DBDeleter_set_field_len (ie_field_len i) (DBDeleter_set_key_len (ie_key_len i) dl))"
      obtain h1 where "FileHandler_write_at (ie_offset i) (DBDeleter_finish ?dl) h = (Inr (), h1)" "handler_seekable h1"
        using FileHandler_write_at_plain [OF Cons.prems] by blast
      then show ?thesis using Cons.IH [of h1] Some by (simp add: Delete Let_def)
    qed
  qed
qed simp

text \<open>
  The outcome of the loop: what it wrote, and the index entries it returns when it ends. It may end
  with the failure of its last write still pending (\<open>l\<close>), and then that write is missing.
\<close>

definition loop_outcome ::
    "third_party \<Rightarrow> IndexEntry hashmap \<Rightarrow> WalEntry list \<Rightarrow> bytes \<Rightarrow> slot list \<Rightarrow> (Key \<times> IndexEntry) list
     \<Rightarrow> (Key \<times> IndexEntry) list PDBResult \<Rightarrow> bool \<Rightarrow> bytes \<Rightarrow> bool" where
  "loop_outcome X plan es hdr ss idxs r l bs =
     ((\<exists>j. bs = hdr @ slots_bytes X (fold flush_slot (take j (written plan es)) ss)
          \<and> ((\<exists>e. r = Inl (Err e)) \<or> l \<and> (\<exists>new. r = Inr new)))
      \<or> (\<exists>new. r = Inr (idxs @ new) \<and> bs = hdr @ slots_bytes X (fold flush_slot (written plan es) ss)
          \<and> (\<forall>k. k \<in> fst ` set new \<longleftrightarrow> (\<exists>f. WalEntry.Set k f \<in> set es))
          \<and> (\<forall>(k, i) \<in> set new. slots_index X (fold flush_slot (written plan es) ss) k = Some i)))"

lemma loop_outcome_stopped:
  "(\<exists>e. r = Inl (Err e)) \<or> l \<and> (\<exists>new. r = Inr new)
    \<Longrightarrow> loop_outcome X plan es hdr ss idxs r l (hdr @ slots_bytes X ss)"
  unfolding loop_outcome_def by (intro disjI1 exI [of _ 0]) simp

lemma loop_outcome_skip:
  assumes "loop_outcome X plan es hdr ss idxs r l bs" and "hm_get plan k = None"
  shows "loop_outcome X plan (WalEntry.Delete k # es) hdr ss idxs r l bs"
  using assms by (simp add: loop_outcome_def)

lemma loop_outcome_delete:
  assumes "loop_outcome X plan es hdr (kill_last k ss) idxs r l bs" and "hm_get plan k \<noteq> None"
  shows "loop_outcome X plan (WalEntry.Delete k # es) hdr ss idxs r l bs"
  using assms(1) unfolding loop_outcome_def
proof (elim disjE exE conjE, goal_cases)
  case (1 j e)
  then show ?case using assms(2) by (intro disjI1 exI [of _ "Suc j"]) auto
next
  case (2 j new)
  then show ?case using assms(2) by (intro disjI1 exI [of _ "Suc j"]) auto
next
  case (3 new)
  then show ?case using assms(2) by (intro disjI2 exI [of _ new]) auto
qed

lemma loop_outcome_set:
  assumes "loop_outcome X plan es hdr (ss @ [Live k f]) (idxs @ [(k, i)]) r l bs"
    and "slots_index X (fold flush_slot (written plan es) (ss @ [Live k f])) k = Some i"
  shows "loop_outcome X plan (WalEntry.Set k f # es) hdr ss idxs r l bs"
  using assms(1) unfolding loop_outcome_def
proof (elim disjE exE conjE, goal_cases)
  case (1 j e)
  then show ?case by (intro disjI1 exI [of _ "Suc j"]) simp
next
  case (2 j new)
  then show ?case by (intro disjI1 exI [of _ "Suc j"]) simp
next
  case (3 new)
  then show ?case using assms(2) by (intro disjI2 exI [of _ "(k, i) # new"]) auto
qed

lemma encode_nonempty [simp]: "encode X k f \<noteq> []"
  using slot_bytes_nonempty [of X "Live k f"] by (simp add: encode_eq)

lemma deleted_nonempty [simp]: "DBDeleter_finish (DBDeleter_get_deleted_field d) \<noteq> []"
  by (simp add: DBDeleter_defs Let_def)

text \<open>Once the failure of a write is pending, the loop writes nothing more.\<close>

lemma flush_entries_late:
  assumes "data_handle h" and "late h"
  shows "\<exists>r h'. flush_entries X plan es h idxs dl = (r, h') \<and> data_handle h' \<and> f_bytes h' = f_bytes h
    \<and> ((\<exists>e. r = Inl (Err e)) \<or> late h' \<and> (\<exists>new. r = Inr new))"
proof (induction es)
  case Nil
  then show ?case using assms by simp
next
  case (Cons e es)
  show ?case
  proof (cases e)
    case (Set k f)
    obtain err h1 where "FileHandler_append (encode X k f) h = (Inl err, h1)" "data_handle h1" "f_bytes h1 = f_bytes h"
      using failing.append_any [OF assms(1) encode_nonempty] assms(2) by blast
    then show ?thesis by (simp add: Set Let_def)
  next
    case (Delete k)
    show ?thesis
    proof (cases "hm_get plan k")
      case None
      then show ?thesis using Cons by (simp add: Delete)
    next
      case (Some i)
      let ?dl = "DBDeleter_get_deleted_field (DBDeleter_set_field_len (ie_field_len i) (DBDeleter_set_key_len (ie_key_len i) dl))"
      obtain err h1 where "FileHandler_write_at (ie_offset i) (DBDeleter_finish ?dl) h = (Inl err, h1)" "data_handle h1"
        "f_bytes h1 = f_bytes h"
        using failing.write_pending [OF assms deleted_nonempty] by blast
      then show ?thesis using Some by (simp add: Delete Let_def)
    qed
  qed
qed

lemma flush_entries_any:
  assumes "data_handle h" and "f_bytes h = hdr @ slots_bytes X ss" and "length hdr = 114"
    and "\<forall>s \<in> set ss. storable_slot s" and "\<forall>e \<in> set es. storable_entry e"
    and "distinct (map WalEntry_key es)" and "dl_buffer dl = []"
    and "\<And>k e. hm_get plan k = Some e \<Longrightarrow> WalEntry.Delete k \<in> set es \<Longrightarrow> slots_index X ss k = Some e"
    and "114 + length (slots_bytes X ss) + sum_list (map record_size es) < 2 ^ 64"
  shows "\<exists>r h'. flush_entries X plan es h idxs dl = (r, h') \<and> data_handle h'
    \<and> loop_outcome X plan es hdr ss idxs r (late h') (f_bytes h')"
  using assms
proof (induction es arbitrary: h ss idxs dl)
  case Nil
  then show ?case by (simp add: loop_outcome_def)
next
  case (Cons e es)
  have wsub: "set (written plan es) \<subseteq> set es" by (auto simp: written_def)
  have fresh: "WalEntry_key e \<notin> WalEntry_key ` set (written plan es)"
    using Cons.prems(6) wsub by auto
  show ?case
  proof (cases e)
    case (Set k f)
    let ?ss = "ss @ [Live k f]"
    let ?i = "entry_at (114 + length (slots_bytes X ss)) k f"
    obtain r h1 where h1: "FileHandler_append (encode X k f) h = (r, h1)" "data_handle h1"
      "r = Inr (of_nat (length (f_bytes h))) \<and> (late h1 \<and> f_bytes h1 = f_bytes h
          \<or> \<not> late h1 \<and> f_bytes h1 = f_bytes h @ encode X k f)
        \<or> (\<exists>e. r = Inl e) \<and> f_bytes h1 = f_bytes h"
      using failing.append_any [OF Cons.prems(1) encode_nonempty] by blast
    show ?thesis
    proof (cases r)
      case (Inl err)
      then show ?thesis
        using h1 Cons.prems(2) by (simp add: Set Let_def loop_outcome_stopped)
    next
      case (Inr pos)
      show ?thesis
      proof (cases "late h1")
        case True
        obtain r2 h2 where "flush_entries X plan es h1 (idxs @ [(k, \<lparr>ie_offset = pos, ie_key_len = of_nat (Key_len k),
              ie_field_len = of_nat (length (bytes_from_field f))\<rparr>)]) dl = (r2, h2)" "data_handle h2"
            "f_bytes h2 = f_bytes h1" "(\<exists>e. r2 = Inl (Err e)) \<or> late h2 \<and> (\<exists>new. r2 = Inr new)"
          using flush_entries_late [OF h1(2) True] by blast
        then show ?thesis
          using h1 Inr True Cons.prems(2) by (simp add: Set Let_def loop_outcome_stopped)
      next
        case False
        have idx: "slots_index X ?ss l = Some i" if "hm_get plan l = Some i" "WalEntry.Delete l \<in> set es" for l i
        proof -
          have "l \<noteq> k" using that(2) Cons.prems(6) Set by force
          then show ?thesis using that Cons.prems(8) [of l i] by (simp add: slots_index_append_live)
        qed
        obtain r' h' where rest: "flush_entries X plan es h1 (idxs @ [(k, ?i)]) dl = (r', h')" "data_handle h'"
          "loop_outcome X plan es hdr ?ss (idxs @ [(k, ?i)]) r' (late h') (f_bytes h')"
          using Cons.IH [of h1 ?ss dl "idxs @ [(k, ?i)]"] Cons.prems Set h1 Inr False idx
          by (auto simp: encode_eq length_record_bytes)
        have "slots_index X (fold flush_slot (written plan es) ?ss) k = slots_index X ?ss k"
          using fresh Set Cons.prems(4,5) wsub by (intro flush_slots_other) auto
        then have "slots_index X (fold flush_slot (written plan es) ?ss) k = Some ?i"
          by (simp add: slots_index_append_live)
        from loop_outcome_set [OF rest(3) this] show ?thesis
          using h1 Inr rest(1,2) Cons.prems(2,3)
          by (simp add: Set Let_def entry_at_def add.commute)
      qed
    qed
  next
    case (Delete k)
    show ?thesis
    proof (cases "hm_get plan k")
      case None
      then show ?thesis
        using Cons.IH [of h ss dl idxs] Cons.prems loop_outcome_skip by (fastforce simp: Delete)
    next
      case (Some i)
      have "slots_index X ss k = Some i" using Cons.prems(8) Some Delete by simp
      then obtain pre f post where ss: "ss = pre @ Live k f # post" "\<forall>g. Live k g \<notin> set post"
        and i: "i = entry_at (114 + length (slots_bytes X pre)) k f"
        using slots_index_Some by blast
      let ?d = "Dead (of_nat (Key_len k)) (of_nat (length (bytes_from_field f)))"
      let ?ss = "kill_last k ss"
      have kill: "?ss = pre @ ?d # post" unfolding ss(1) by (rule kill_last_split [OF ss(2)])
      have st: "storable_key k" "storable_field f" using Cons.prems(4) ss by auto
      have pos: "unat (ie_offset i) = length (hdr @ slots_bytes X pre)"
        using Cons.prems(3,9) by (simp add: i entry_at_def unat_of_nat_u64 ss del: of_nat_add)
      have tomb: "DBDeleter_finish (DBDeleter_get_deleted_field (DBDeleter_set_field_len (ie_field_len i)
          (DBDeleter_set_key_len (ie_key_len i) dl))) = slot_bytes X ?d"
        using Cons.prems(7) by (simp add: DBDeleter_tombstone i entry_at_def)
      have mid: "f_bytes h = (hdr @ slots_bytes X pre) @ slot_bytes X (Live k f) @ slots_bytes X post"
        using Cons.prems(2) by (simp add: ss)
      obtain r h1 where h1: "FileHandler_write_at (ie_offset i) (slot_bytes X ?d) h = (r, h1)" "data_handle h1"
        "r = Inr () \<and> (late h1 \<and> f_bytes h1 = f_bytes h
            \<or> \<not> late h1 \<and> f_bytes h1 = (hdr @ slots_bytes X pre) @ slot_bytes X ?d @ slots_bytes X post)
          \<or> (\<exists>e. r = Inl e) \<and> f_bytes h1 = f_bytes h"
        using failing.write_at_mid_any [OF Cons.prems(1) mid pos length_kill [OF st] slot_bytes_nonempty]
        unfolding mid [symmetric] by blast
      show ?thesis
      proof (cases r)
        case (Inl err)
        then show ?thesis
          using h1 tomb Some Cons.prems(2) by (simp add: Delete Let_def loop_outcome_stopped)
      next
        case (Inr u)
        show ?thesis
        proof (cases "late h1")
          case True
          obtain r2 h2 where "flush_entries X plan es h1 idxs (DBDeleter_reset (DBDeleter_get_deleted_field
              (DBDeleter_set_field_len (ie_field_len i) (DBDeleter_set_key_len (ie_key_len i) dl)))) = (r2, h2)"
              "data_handle h2" "f_bytes h2 = f_bytes h1" "(\<exists>e. r2 = Inl (Err e)) \<or> late h2 \<and> (\<exists>new. r2 = Inr new)"
            using flush_entries_late [OF h1(2) True] by blast
          then show ?thesis
            using h1 Inr True tomb Some Cons.prems(2) by (simp add: Delete Let_def loop_outcome_stopped)
        next
          case False
          have idx: "slots_index X ?ss l = Some j" if "hm_get plan l = Some j" "WalEntry.Delete l \<in> set es" for l j
          proof -
            have "l \<noteq> k" using that(2) Cons.prems(6) Delete by force
            then show ?thesis
              using that Cons.prems(8) [of l j] kill_last_other [OF Cons.prems(4), of l k X] by simp
          qed
          let ?dl = "DBDeleter_reset (DBDeleter_get_deleted_field (DBDeleter_set_field_len (ie_field_len i)
              (DBDeleter_set_key_len (ie_key_len i) dl)))"
          have "\<exists>r h'. flush_entries X plan es h1 idxs ?dl = (r, h') \<and> data_handle h'
            \<and> loop_outcome X plan es hdr ?ss idxs r (late h') (f_bytes h')"
          proof (rule Cons.IH)
            show "f_bytes h1 = hdr @ slots_bytes X ?ss" using h1(3) Inr False by (simp add: kill)
            show "dl_buffer ?dl = []" by (simp add: DBDeleter_reset_def)
          qed (use Cons.prems Delete h1 idx in \<open>simp_all add: kill_last_storable kill_last_length\<close>)
          moreover have "flush_entries X plan (e # es) h idxs dl = flush_entries X plan es h1 idxs ?dl"
            using h1(1) Inr tomb Some by (simp add: Delete Let_def)
          ultimately show ?thesis using Some loop_outcome_delete by (auto simp: Delete)
        qed
      qed
    qed
  qed
qed

lemma flush_entries_ok:
  assumes "handler_seekable h" and "f_bytes h = hdr @ slots_bytes X ss" and "length hdr = 114"
    and "\<forall>s \<in> set ss. storable_slot s" and "\<forall>e \<in> set es. storable_entry e"
    and "distinct (map WalEntry_key es)" and "dl_buffer dl = []"
    and "\<And>k e. hm_get plan k = Some e \<Longrightarrow> WalEntry.Delete k \<in> set es \<Longrightarrow> slots_index X ss k = Some e"
    and "114 + length (slots_bytes X ss) + sum_list (map record_size es) < 2 ^ 64"
  shows "\<exists>new h'. flush_entries X plan es h idxs dl = (Inr (idxs @ new), h') \<and> handler_seekable h'
    \<and> f_bytes h' = hdr @ slots_bytes X (fold flush_slot (written plan es) ss)
    \<and> (\<forall>k. k \<in> fst ` set new \<longleftrightarrow> (\<exists>f. WalEntry.Set k f \<in> set es))
    \<and> (\<forall>(k, i) \<in> set new. slots_index X (fold flush_slot (written plan es) ss) k = Some i)"
proof -
  obtain new h' where run: "flush_entries X plan es h idxs dl = (Inr (idxs @ new), h')" "handler_seekable h'"
    using flush_entries_plain [OF assms(1)] by blast
  have now: "\<not> late h'" using run(2) by (simp add: handler_seekable_def handler_ready_def)
  have "data_handle h" using assms(1) by (simp add: data_handle_def handler_seekable_def handler_ready_def failing_cleanly_def)
  from flush_entries_any [where plan = plan and idxs = idxs, OF this assms(2-9)] run now show ?thesis
    by (auto simp: loop_outcome_def)
qed

end
