(* ===== verification/Database_Rep.thy ===== *)
theory Database_Rep
  imports Flush_Slots
begin

text \<open>
  The representation invariant of a database, \<open>db_rep\<close>: the data file is a header followed by
  storable slots, the index names the last live record of each of its keys, the log file holds
  the entries in memory, and there is room for the log. Every operation keeps it; the lemmas say
  what each does to the fields, the log, the index and the versions on disk when no call on
  the files fails.
\<close>

section \<open>The last steps of the flush\<close>

lemma commit_state_index_loop:
  "st_index (fold (\<lambda>(k, i) st. st\<lparr>st_index := hm_insert k i (st_index st)\<rparr>) idxs st)
     = fold (\<lambda>ke m. hm_insert (fst ke) (snd ke) m) idxs (st_index st)
   \<and> st_fields (fold (\<lambda>(k, i) st. st\<lparr>st_index := hm_insert k i (st_index st)\<rparr>) idxs st) = st_fields st"
  by (induction idxs arbitrary: st) auto

lemma commit_state_delete_loop:
  "st_index (fold (\<lambda>key st. st\<lparr>st_index := hm_remove key (st_index st),
       st_fields := hm_remove key (st_fields st)\<rparr>) ks st) = fold hm_remove ks (st_index st)
   \<and> st_fields (fold (\<lambda>key st. st\<lparr>st_index := hm_remove key (st_index st),
       st_fields := hm_remove key (st_fields st)\<rparr>) ks st) = fold hm_remove ks (st_fields st)"
  by (induction ks arbitrary: st) auto

lemma hm_get_remove_all: "hm_get (fold hm_remove ks m) k = (if k \<in> set ks then None else hm_get m k)"
  by (induction ks arbitrary: m) auto

lemma hm_wf_remove_all: "hm_wf m \<Longrightarrow> hm_wf (fold hm_remove ks m)"
  by (induction ks arbitrary: m) auto

lemma commit_state_get:
  assumes "hash_order ord"
  shows "hm_get (st_index (commit_state ord idxs plan st)) k
      = (if hm_get plan k \<noteq> None then None
         else case map_of (rev idxs) k of None \<Rightarrow> hm_get (st_index st) k | Some i \<Rightarrow> Some i)"
    and "hm_get (st_fields (commit_state ord idxs plan st)) k
      = (if hm_get plan k \<noteq> None then None else hm_get (st_fields st) k)"
  by (simp_all add: commit_state_def commit_state_index_loop commit_state_delete_loop
      hm_get_remove_all hm_get_insert_all set_hm_keys [OF assms])

lemma commit_state_wf:
  "hm_wf (st_index st) \<Longrightarrow> hm_wf (st_index (commit_state ord idxs plan st))"
  "hm_wf (st_fields st) \<Longrightarrow> hm_wf (st_fields (commit_state ord idxs plan st))"
  by (simp_all add: commit_state_def commit_state_index_loop commit_state_delete_loop
      hm_wf_remove_all hm_wf_insert_all)

lemma write_record_count:
  assumes "handler_seekable h" and "f_bytes h = header_bytes rc nm @ rest" and "length nm = 64"
  shows "\<exists>h'. FileHandler_write_at RECORD_COUNT_OFFSET (to_le_bytes 8 c) h = (Inr (), h')
    \<and> handler_seekable h' \<and> f_bytes h' = header_bytes c nm @ rest"
proof -
  let ?pre = "DB_HEADER_KEY @ to_le_bytes 8 DB_HEADER_MAGIC @ DB_VERSION_KEY
    @ [DB_VERSION, DB_VERSION_DECIMAL] @ DB_RECORD_COUNT_KEY"
  have "f_bytes h = ?pre @ to_le_bytes 8 rc @ DB_NAME_KEY @ nm @ rest"
    by (simp add: assms(2) header_bytes_def)
  moreover have "unat RECORD_COUNT_OFFSET = length ?pre" by (simp add: RECORD_COUNT_OFFSET_def)
  ultimately have "\<exists>h'. FileHandler_write_at RECORD_COUNT_OFFSET (to_le_bytes 8 c) h = (Inr (), h')
      \<and> handler_seekable h' \<and> f_bytes h' = ?pre @ to_le_bytes 8 c @ DB_NAME_KEY @ nm @ rest"
    by (rule data_handler.write_at_mid [OF assms(1)]) simp
  then show ?thesis by (simp add: header_bytes_def)
qed

lemma Database_rebuild_index_ok:
  assumes "handler_seekable (db_index_file db)"
  shows "\<exists>h. Database_rebuild_index ord db = (Inr (), db\<lparr>db_index_file := h\<rparr>) \<and> handler_seekable h
    \<and> f_bytes h = index_file_bytes ord (st_index (db_state db))"
proof -
  let ?data = "index_file_bytes ord (st_index (db_state db))"
  obtain h1 h2 where h: "FileHandler_set_len 0 (db_index_file db) = (Inr (), h1)"
    "FileHandler_write_at 0 ?data h1 = (Inr (), h2)" "handler_seekable h2" "f_bytes h2 = ?data"
    using data_handler.replace_content [OF assms] by blast
  obtain h3 where "FileHandler_sync_all h2 = (Inr (), h3)" "handler_seekable h3" "f_bytes h3 = f_bytes h2"
    using data_handler.sync_ok [OF h(3)] by blast
  with h show ?thesis
    by (intro exI [of _ h3]) (simp add: Database_rebuild_index_def IndexEncoder_file Let_def)
qed

section \<open>The representation invariant\<close>

definition index_stored :: "Database \<Rightarrow> bool" where
  "index_stored db = (f_bytes (db_index_file db) = []
     \<or> (\<exists>ord m. hash_order ord \<and> hm_wf m \<and> hm_get m = hm_get (st_index (db_state db))
          \<and> f_bytes (db_index_file db) = index_file_bytes ord m))"

definition log_size :: "Database \<Rightarrow> nat" where
  "log_size db = sum_list (map record_size (wal_entries (db_wal db)))"

definition db_rep :: "third_party \<Rightarrow> bytes \<Rightarrow> Database \<Rightarrow> slot list \<Rightarrow> bool" where
  "db_rep X nm db ss =
     (handler_seekable (db_file db) \<and> handler_seekable (db_index_file db)
      \<and> wal_ready (db_wal db) \<and> wal_inv (db_wal db)
      \<and> length nm = 64 \<and> (\<exists>rc. f_bytes (db_file db) = header_bytes rc nm @ slots_bytes X ss)
      \<and> (\<forall>s \<in> set ss. storable_slot s)
      \<and> hm_wf (st_fields (db_state db)) \<and> hm_wf (st_index (db_state db))
      \<and> (\<forall>k e. hm_get (st_index (db_state db)) k = Some e \<longrightarrow> slots_index X ss k = Some e)
      \<and> length (f_bytes (db_file db)) + log_size db < 2 ^ 64
      \<and> index_stored db)"

abbreviation db_log :: "Database \<Rightarrow> WalEntry list" where
  "db_log db \<equiv> wal_entries (db_wal db)"

abbreviation db_fields :: "Database \<Rightarrow> Key \<Rightarrow> Field option" where
  "db_fields db \<equiv> hm_get (st_fields (db_state db))"

abbreviation db_index :: "Database \<Rightarrow> Key \<Rightarrow> IndexEntry option" where
  "db_index db \<equiv> hm_get (st_index (db_state db))"

text \<open>What the flush writes, and the slots it leaves.\<close>

definition flush_plan :: "(Key list \<Rightarrow> Key list) \<Rightarrow> Database \<Rightarrow> IndexEntry hashmap" where
  "flush_plan ord db = make_delete_plan ord (net_entries (db_log db)) (st_index (db_state db))"

definition flushed_slots :: "(Key list \<Rightarrow> Key list) \<Rightarrow> Database \<Rightarrow> slot list \<Rightarrow> slot list" where
  "flushed_slots ord db ss =
     fold flush_slot (written (flush_plan ord db) (hm_into_values ord (net_entries (db_log db)))) ss"

lemma net_values_sub:
  assumes "hash_order ord"
  shows "mset (hm_into_values ord (net_entries es)) \<subseteq># mset es"
proof -
  have "distinct (hm_into_values ord (net_entries es))"
    using net_values_distinct [OF assms] by (rule distinct_map [THEN iffD1, THEN conjunct1])
  moreover have "set (hm_into_values ord (net_entries es)) \<subseteq> set es"
    using in_net_values_iff [OF assms] hm_get_net_entries_in by blast
  ultimately show ?thesis
    by (intro mset_subset_eqI) (auto simp: distinct_count_atmost_1 count_mset_0_iff Suc_le_eq)
qed

lemma set_net_values: "hash_order ord \<Longrightarrow> set (hm_into_values ord (net_entries es)) \<subseteq> set es"
  using net_values_sub by (metis set_mset_mono set_mset_mset)

lemma sum_list_msubset:
  assumes "mset xs \<subseteq># mset ys"
  shows "sum_list (map g xs) \<le> (sum_list (map g ys) :: nat)"
proof -
  obtain M where "mset ys = mset xs + M" using assms by (auto simp: subset_mset.le_iff_add)
  then have "image_mset g (mset ys) = image_mset g (mset xs) + image_mset g M" by simp
  then show ?thesis by (metis sum_mset_sum_list mset_map sum_mset.union le_add1)
qed

lemma db_repD:
  assumes "db_rep X nm db ss"
  shows "handler_seekable (db_file db)" "handler_seekable (db_index_file db)" "wal_ready (db_wal db)"
    "wal_inv (db_wal db)" "length nm = 64"
    "\<exists>rc. f_bytes (db_file db) = header_bytes rc nm @ slots_bytes X ss"
    "\<forall>s \<in> set ss. storable_slot s" "hm_wf (st_fields (db_state db))" "hm_wf (st_index (db_state db))"
    "\<And>k e. db_index db k = Some e \<Longrightarrow> slots_index X ss k = Some e"
    "length (f_bytes (db_file db)) + log_size db < 2 ^ 64" "index_stored db"
  using assms by (auto simp: db_rep_def)

lemma db_rep_file_length:
  assumes "db_rep X nm db ss"
  shows "length (f_bytes (db_file db)) = 114 + length (slots_bytes X ss)"
  using db_repD(5,6) [OF assms] by (auto simp: length_header_bytes)

lemma find_key_iff:
  "distinct (map key xs) \<Longrightarrow> find (\<lambda>e. key e = k) xs = Some e \<longleftrightarrow> e \<in> set xs \<and> key e = k"
  by (induction xs) force+

lemma flush_plan_get:
  assumes "hash_order ord"
  shows "hm_get (flush_plan ord db) k = (if logged (db_log db) k = Some None then db_index db k else None)"
proof (cases "hm_get (net_entries (db_log db)) k")
  case None
  then show ?thesis by (simp add: flush_plan_def hm_get_delete_plan [OF assms] logged_net)
next
  case (Some e)
  then show ?thesis by (cases e) (simp_all add: flush_plan_def hm_get_delete_plan [OF assms] logged_net)
qed

lemma find_written:
  assumes "hash_order ord"
  shows "find (\<lambda>e. WalEntry_key e = k) (written plan (hm_into_values ord (net_entries es)))
    = (case logged es k of None \<Rightarrow> None | Some (Some f) \<Rightarrow> Some (WalEntry.Set k f)
       | Some None \<Rightarrow> if hm_get plan k = None then None else Some (WalEntry.Delete k))"
proof -
  let ?w = "written plan (hm_into_values ord (net_entries es))"
  have dist: "distinct (map WalEntry_key ?w)"
    using net_values_distinct [OF assms, of es] by (simp add: written_def distinct_map_filter)
  have in_w: "e \<in> set ?w \<and> WalEntry_key e = k
      \<longleftrightarrow> hm_get (net_entries es) k = Some e \<and> (is_delete e \<longrightarrow> hm_get plan k \<noteq> None)" for e
    using in_net_values_iff [OF assms, of e es] hm_get_net_entries_in [of es k e] by (auto simp: written_def)
  show ?thesis
  proof (cases "hm_get (net_entries es) k")
    case None
    then have "find (\<lambda>e. WalEntry_key e = k) ?w = None" using in_w by (auto simp: find_None_iff)
    with None show ?thesis by (simp add: logged_net)
  next
    case (Some e)
    then have key: "WalEntry_key e = k" using hm_get_net_entries_in by blast
    show ?thesis
    proof (cases "is_delete e \<and> hm_get plan k = None")
      case True
      then have "find (\<lambda>e. WalEntry_key e = k) ?w = None" using in_w Some by (auto simp: find_None_iff)
      with True Some key show ?thesis by (cases e) (simp_all add: logged_net)
    next
      case False
      then have "find (\<lambda>e. WalEntry_key e = k) ?w = Some e"
        using in_w [of e] Some find_key_iff [OF dist, of k e] by auto
      with False Some key show ?thesis by (cases e) (simp_all add: logged_net)
    qed
  qed
qed

text \<open>What a flush does to the versions of a key on disk.\<close>

definition flushed_values :: "Database \<Rightarrow> Key \<Rightarrow> Field list \<Rightarrow> Field list" where
  "flushed_values db k vs =
     (case logged (db_log db) k of None \<Rightarrow> vs | Some (Some f) \<Rightarrow> vs @ [f]
      | Some None \<Rightarrow> if db_index db k = None then vs else butlast vs)"

lemma live_values_flushed:
  assumes "hash_order ord" and "wal_inv (db_wal db)" and "\<forall>s \<in> set ss. storable_slot s"
  shows "live_values (flushed_slots ord db ss) k = flushed_values db k (live_values ss k)"
proof -
  let ?vals = "hm_into_values ord (net_entries (db_log db))"
  have "set ?vals \<subseteq> set (db_log db)" by (rule set_net_values [OF assms(1)])
  then have "\<forall>e \<in> set (written (flush_plan ord db) ?vals). storable_entry e"
    using assms(2) by (auto simp: wal_inv_def written_def)
  moreover have "distinct (map WalEntry_key (written (flush_plan ord db) ?vals))"
    using net_values_distinct [OF assms(1), of "db_log db"] by (simp add: written_def distinct_map_filter)
  ultimately show ?thesis
    unfolding flushed_slots_def flushed_values_def
    by (auto simp: flush_slots_values [OF _ assms(3)] find_written [OF assms(1)] flush_plan_get [OF assms(1)]
        split: option.split)
qed

lemma logged_Set_iff: "logged es k = Some (Some f) \<longleftrightarrow> hm_get (net_entries es) k = Some (WalEntry.Set k f)"
proof (cases "hm_get (net_entries es) k")
  case None
  then show ?thesis by (simp add: logged_net)
next
  case (Some e)
  then have "WalEntry_key e = k" using hm_get_net_entries_in by blast
  with Some show ?thesis by (cases e) (auto simp: logged_net)
qed

lemma set_in_net_values:
  "hash_order ord \<Longrightarrow> (\<exists>f. WalEntry.Set k f \<in> set (hm_into_values ord (net_entries es)))
    \<longleftrightarrow> (\<exists>f. logged es k = Some (Some f))"
  by (simp add: in_net_values_iff logged_Set_iff)

text \<open>The loop on the net entries of the log runs under the conditions of its lemmas.\<close>

lemma flush_loop_facts:
  assumes rep: "db_rep X nm db ss" and ord: "hash_order ord"
  shows "\<forall>e \<in> set (hm_into_values ord (net_entries (db_log db))). storable_entry e"
    and "\<And>k e. hm_get (flush_plan ord db) k = Some e \<Longrightarrow> slots_index X ss k = Some e"
    and "114 + length (slots_bytes X ss)
      + sum_list (map record_size (hm_into_values ord (net_entries (db_log db)))) < 2 ^ 64"
proof -
  note D = db_repD [OF rep]
  show "\<forall>e \<in> set (hm_into_values ord (net_entries (db_log db))). storable_entry e"
    using set_net_values [OF ord, of "db_log db"] D(4) by (auto simp: wal_inv_def)
  show "slots_index X ss k = Some e" if "hm_get (flush_plan ord db) k = Some e" for k e
    using that D(10) by (simp add: flush_plan_get [OF ord] split: if_split_asm)
  have "sum_list (map record_size (hm_into_values ord (net_entries (db_log db)))) \<le> log_size db"
    unfolding log_size_def by (rule sum_list_msubset [OF net_values_sub [OF ord]])
  then show "114 + length (slots_bytes X ss)
      + sum_list (map record_size (hm_into_values ord (net_entries (db_log db)))) < 2 ^ 64"
    using D(11) db_rep_file_length [OF rep] by simp
qed

lemma flush_loop_ok:
  assumes rep: "db_rep X nm db ss" and ord: "hash_order ord"
    and fb: "f_bytes (db_file db) = header_bytes rc nm @ slots_bytes X ss"
  shows "\<exists>new h'. flush_entries X (flush_plan ord db) (hm_into_values ord (net_entries (db_log db)))
        (db_file db) [] DBDeleter_new = (Inr new, h')
    \<and> handler_seekable h' \<and> f_bytes h' = header_bytes rc nm @ slots_bytes X (flushed_slots ord db ss)
    \<and> (\<forall>k. k \<in> fst ` set new \<longleftrightarrow> (\<exists>f. logged (db_log db) k = Some (Some f)))
    \<and> (\<forall>(k, i) \<in> set new. slots_index X (flushed_slots ord db ss) k = Some i)"
  using flush_entries_ok [where plan = "flush_plan ord db" and dl = DBDeleter_new and idxs = "[]",
      OF db_repD(1) [OF rep] fb length_header_bytes [OF db_repD(5) [OF rep]] db_repD(7) [OF rep]
        flush_loop_facts(1) [OF rep ord] net_values_distinct [OF ord] _ flush_loop_facts(2) [OF rep ord]
        flush_loop_facts(3) [OF rep ord]]
  by (auto simp: flushed_slots_def DBDeleter_new_def set_in_net_values [OF ord])

text \<open>The same loop on a handle whose requests may fail.\<close>

lemma flush_loop_any:
  assumes rep: "db_rep X nm db ss" and ord: "hash_order ord"
    and h: "data_handle h" "f_bytes h = header_bytes rc nm @ slots_bytes X ss"
  shows "\<exists>r h'. flush_entries X (flush_plan ord db) (hm_into_values ord (net_entries (db_log db)))
        h [] DBDeleter_new = (r, h') \<and> data_handle h'
    \<and> loop_outcome X (flush_plan ord db) (hm_into_values ord (net_entries (db_log db)))
        (header_bytes rc nm) ss [] r (late h') (f_bytes h')"
  using flush_entries_any [where plan = "flush_plan ord db" and dl = DBDeleter_new and idxs = "[]",
      OF h length_header_bytes [OF db_repD(5) [OF rep]] db_repD(7) [OF rep]
        flush_loop_facts(1) [OF rep ord] net_values_distinct [OF ord] _ flush_loop_facts(2) [OF rep ord]
        flush_loop_facts(3) [OF rep ord]]
  by (simp add: DBDeleter_new_def)

lemma flush_index_get:
  assumes rep: "db_rep X nm db ss" and ord: "hash_order ord"
    and keys: "\<forall>k. k \<in> fst ` set new \<longleftrightarrow> (\<exists>f. logged (db_log db) k = Some (Some f))"
    and vals: "\<forall>(k, i) \<in> set new. slots_index X (flushed_slots ord db ss) k = Some i"
  shows "hm_get (st_index (commit_state ord new (flush_plan ord db) (db_state db))) k
    = (case logged (db_log db) k of None \<Rightarrow> db_index db k | Some None \<Rightarrow> None
       | Some (Some f) \<Rightarrow> slots_index X (flushed_slots ord db ss) k)"
proof -
  have None: "map_of (rev new) k = None \<longleftrightarrow> (\<nexists>f. logged (db_log db) k = Some (Some f))"
    using keys by (simp add: map_of_eq_None_iff)
  have Some: "slots_index X (flushed_slots ord db ss) k = Some i" if "map_of (rev new) k = Some i" for i
    using map_of_SomeD [OF that] vals by auto
  show ?thesis
    using None Some by (auto simp: commit_state_get [OF ord] flush_plan_get [OF ord] split: option.split)
qed

lemma flush_slots_keep:
  assumes rep: "db_rep X nm db ss" and ord: "hash_order ord" and "logged (db_log db) k = None"
  shows "slots_index X (flushed_slots ord db ss) k = slots_index X ss k"
proof -
  let ?vals = "hm_into_values ord (net_entries (db_log db))"
  have vals: "set ?vals \<subseteq> set (db_log db)" by (rule set_net_values [OF ord])
  have "hm_get (net_entries (db_log db)) k = None" using assms(3) by (simp add: logged_net)
  then have "k \<notin> WalEntry_key ` set ?vals"
    by (auto simp: in_net_values_iff [OF ord])
  then show ?thesis
    unfolding flushed_slots_def
    by (intro flush_slots_other) (use vals db_repD(4,7) [OF rep] in \<open>auto simp: wal_inv_def written_def\<close>)
qed

lemma flush_index_sub:
  assumes rep: "db_rep X nm db ss" and ord: "hash_order ord"
    and "\<forall>k. k \<in> fst ` set new \<longleftrightarrow> (\<exists>f. logged (db_log db) k = Some (Some f))"
    and "\<forall>(k, i) \<in> set new. slots_index X (flushed_slots ord db ss) k = Some i"
    and "hm_get (st_index (commit_state ord new (flush_plan ord db) (db_state db))) k = Some e"
  shows "slots_index X (flushed_slots ord db ss) k = Some e"
  using assms(5) db_repD(10) [OF rep, of k e] flush_slots_keep [OF rep ord, of k]
  by (auto simp: flush_index_get [OF assms(1-4)] split: option.split_asm)

lemma flush_length:
  assumes rep: "db_rep X nm db ss" and ord: "hash_order ord"
  shows "length (slots_bytes X (flushed_slots ord db ss)) \<le> length (slots_bytes X ss) + log_size db"
    and "\<forall>s \<in> set (flushed_slots ord db ss). storable_slot s"
proof -
  let ?vals = "hm_into_values ord (net_entries (db_log db))"
  let ?w = "written (flush_plan ord db) ?vals"
  have vals: "set ?vals \<subseteq> set (db_log db)" by (rule set_net_values [OF ord])
  then have st: "\<forall>e \<in> set ?w. storable_entry e"
    using db_repD(4) [OF rep] by (auto simp: wal_inv_def written_def)
  have "mset ?w \<subseteq># mset (db_log db)"
    using net_values_sub [OF ord, of "db_log db"] unfolding written_def mset_filter
    by (metis multiset_filter_subset subset_mset.order_trans)
  then have "sum_list (map record_size ?w) \<le> log_size db"
    unfolding log_size_def by (rule sum_list_msubset)
  then show "length (slots_bytes X (flushed_slots ord db ss)) \<le> length (slots_bytes X ss) + log_size db"
    unfolding flushed_slots_def by (simp add: flush_slots_length [OF db_repD(7) [OF rep] st])
  show "\<forall>s \<in> set (flushed_slots ord db ss). storable_slot s"
    unfolding flushed_slots_def by (rule flush_slots_storable [OF st db_repD(7) [OF rep]])
qed

text \<open>The whole flush, when no call on the files fails.\<close>

lemma Database_flush_ok:
  assumes rep: "db_rep X nm db ss" and ord: "hash_order ord"
  shows "\<exists>db'. Database_flush X ord db = (Inr (), db') \<and> db_rep X nm db' (flushed_slots ord db ss)
    \<and> db_log db' = []
    \<and> (\<forall>k. db_fields db' k = (if hm_get (flush_plan ord db) k \<noteq> None then None else db_fields db k))
    \<and> (\<forall>k. db_index db' k = (case logged (db_log db) k of None \<Rightarrow> db_index db k | Some None \<Rightarrow> None
          | Some (Some f) \<Rightarrow> slots_index X (flushed_slots ord db ss) k))
    \<and> f_bytes (db_file db') = header_bytes (of_nat (hm_len (st_fields (db_state db')))) nm
        @ slots_bytes X (flushed_slots ord db ss)
    \<and> f_bytes (db_index_file db') = index_file_bytes ord (st_index (db_state db'))"
proof -
  note D = db_repD [OF rep]
  let ?plan = "flush_plan ord db" and ?ss = "flushed_slots ord db ss"
  obtain rc where fb: "f_bytes (db_file db) = header_bytes rc nm @ slots_bytes X ss" using D(6) by blast
  obtain new h1 where loop: "flush_entries X ?plan (hm_into_values ord (net_entries (db_log db))) (db_file db) [] DBDeleter_new
      = (Inr new, h1)"
    "handler_seekable h1" "f_bytes h1 = header_bytes rc nm @ slots_bytes X ?ss"
    "\<forall>k. k \<in> fst ` set new \<longleftrightarrow> (\<exists>f. logged (db_log db) k = Some (Some f))"
    "\<forall>(k, i) \<in> set new. slots_index X ?ss k = Some i"
    using flush_loop_ok [OF rep ord fb] by blast
  obtain h2 where h2: "FileHandler_sync_all h1 = (Inr (), h2)" "handler_seekable h2" "f_bytes h2 = f_bytes h1"
    using data_handler.sync_ok [OF loop(2)] by blast
  define st where "st = commit_state ord new ?plan (db_state db)"
  let ?c = "of_nat (hm_len (st_fields st)) :: u64"
  obtain h3 where h3: "FileHandler_write_at RECORD_COUNT_OFFSET (to_le_bytes 8 ?c) h2 = (Inr (), h3)"
    "handler_seekable h3" "f_bytes h3 = header_bytes ?c nm @ slots_bytes X ?ss"
    using write_record_count [OF h2(2) _ D(5)] h2(3) loop(3) by metis
  let ?db1 = "db\<lparr>db_state := st, db_file := h3\<rparr>"
  obtain hi where hi: "Database_rebuild_index ord ?db1 = (Inr (), ?db1\<lparr>db_index_file := hi\<rparr>)"
    "handler_seekable hi" "f_bytes hi = index_file_bytes ord (st_index st)"
    using Database_rebuild_index_ok [of ?db1 ord] D(2) by auto
  obtain wal where wal: "Wal_checkpoint (db_wal db) = (Inr (), wal)" "wal_ready wal" "wal_entries wal = []"
    "f_bytes (wal_file wal) = []"
    using Wal_checkpoint_ok [OF D(3)] by blast
  let ?db' = "db\<lparr>db_state := st, db_file := h3, db_index_file := hi, db_wal := wal\<rparr>"
  have run: "Database_flush X ord db = (Inr (), ?db')"
    using loop(1) h2(1) h3(1) hi(1) wal(1)
    by (simp add: Database_flush_def Wal_pop_uncommited_entries_def flush_plan_def Let_def db_then_def
        Database_update_record_count_def Database_checkpoint_def st_def)
  have idx: "hm_get (st_index st) k = (case logged (db_log db) k of None \<Rightarrow> db_index db k
      | Some None \<Rightarrow> None | Some (Some f) \<Rightarrow> slots_index X ?ss k)" for k
    unfolding st_def by (rule flush_index_get [OF rep ord loop(4,5)])
  have sub: "slots_index X ?ss k = Some e" if "hm_get (st_index st) k = Some e" for k e
    using that unfolding st_def by (rule flush_index_sub [OF rep ord loop(4,5)])
  have wf: "hm_wf (st_index st)" "hm_wf (st_fields st)"
    unfolding st_def by (rule commit_state_wf(1) [OF D(9)], rule commit_state_wf(2) [OF D(8)])
  have "index_stored ?db'" unfolding index_stored_def using hi(3) ord wf by auto
  moreover have "length (f_bytes h3) + log_size ?db' < 2 ^ 64"
    using h3(3) wal(3) D(5,11) flush_length(1) [OF rep ord] db_rep_file_length [OF rep]
    by (simp add: log_size_def length_header_bytes)
  ultimately have "db_rep X nm ?db' ?ss"
    using h3 hi wal D(5) flush_length(2) [OF rep ord] sub wf by (auto simp: db_rep_def wal_inv_def)
  with run idx h3 hi wal show ?thesis
    by (intro exI [of _ ?db']) (simp add: st_def commit_state_get [OF ord])
qed

section \<open>Writing\<close>

lemma wal_inv_after_append:
  assumes "wal_ready wal" and "wal_inv wal" and "storable_entry e"
  obtains wal' where "Wal_append_entry e wal = (Inr (), wal')" "wal_ready wal'" "wal_inv wal'"
    "wal_entries wal' = wal_entries wal @ [e]"
  using Wal_append_entry_ok [OF assms(1), of e] wal_inv_append [OF assms] by auto

lemma update_fields_simps [simp]:
  "st_fields (db_state (update_fields g db)) = g (st_fields (db_state db))"
  "st_index (db_state (update_fields g db)) = st_index (db_state db)"
  "db_wal (update_fields g db) = db_wal db"
  "db_file (update_fields g db) = db_file db"
  "db_index_file (update_fields g db) = db_index_file db"
  by (simp_all add: update_fields_def)

text \<open>The two halves of a write: the log, then the map in memory.\<close>

lemma db_rep_append:
  assumes rep: "db_rep X nm db ss" and "storable_entry e"
    and "length (f_bytes (db_file db)) + log_size db + record_size e < 2 ^ 64"
  shows "\<exists>wal. Wal_append_entry e (db_wal db) = (Inr (), wal) \<and> wal_entries wal = db_log db @ [e]
    \<and> db_rep X nm (db\<lparr>db_wal := wal\<rparr>) ss"
proof -
  obtain wal where "Wal_append_entry e (db_wal db) = (Inr (), wal)" "wal_ready wal"
    "wal_inv wal" "wal_entries wal = db_log db @ [e]"
    using wal_inv_after_append [OF db_repD(3,4) [OF rep] assms(2)] by blast
  then show ?thesis
    using rep assms(3) by (simp add: db_rep_def log_size_def index_stored_def add.assoc)
qed

lemma db_rep_write:
  assumes rep: "db_rep X nm db ss" and "storable_entry e"
    and "length (f_bytes (db_file db)) + log_size db + record_size e < 2 ^ 64"
    and "append_write e (db_wal db) = (r, wal)"
  shows "r = Inr () \<and> wal_entries wal = db_log db @ [e] \<and> db_rep X nm (db\<lparr>db_wal := wal\<rparr>) ss"
proof -
  note D = db_repD [OF rep]
  have wal: "r = Inr ()" "wal_ready wal" "wal_entries wal = db_log db @ [e]"
    "f_bytes (wal_file wal) = f_bytes (wal_file (db_wal db)) @ wal_entry_bytes e"
    using append_write_ok [OF D(3), of e] assms(4) by auto
  then have "wal_inv wal" using D(4) assms(2) by (simp add: wal_inv_def)
  then show ?thesis
    using wal rep assms(3) by (simp add: db_rep_def log_size_def index_stored_def add.assoc)
qed

lemma db_rep_sync:
  assumes rep: "db_rep X nm db ss" and "append_sync (db_wal db) = (r, wal)"
  shows "r = Inr () \<and> wal_entries wal = db_log db \<and> db_rep X nm (db\<lparr>db_wal := wal\<rparr>) ss"
proof -
  note D = db_repD [OF rep]
  have wal: "r = Inr ()" "wal_ready wal" "wal_entries wal = db_log db"
    "f_bytes (wal_file wal) = f_bytes (wal_file (db_wal db))"
    using append_sync_ok [OF D(3)] assms(2) by auto
  then have "wal_inv wal" using D(4) by (simp add: wal_inv_def)
  then show ?thesis
    using wal rep by (simp add: db_rep_def log_size_def index_stored_def)
qed

lemma db_rep_update_fields:
  assumes "db_rep X nm db ss" and "hm_wf (g (st_fields (db_state db)))"
  shows "db_rep X nm (update_fields g db) ss"
  using assms by (simp add: db_rep_def log_size_def index_stored_def)

lemma Database_set_ok:
  assumes rep: "db_rep X nm db ss" and "storable_key k" and "storable_field f"
    and "length (f_bytes (db_file db)) + log_size db + record_size (WalEntry.Set k f) < 2 ^ 64"
  shows "\<exists>db'. Database_set k f db = (Inr (), db') \<and> db_rep X nm db' ss
    \<and> db_log db' = db_log db @ [WalEntry.Set k f] \<and> db_fields db' = (db_fields db)(k \<mapsto> f)
    \<and> db_index db' = db_index db \<and> db_file db' = db_file db \<and> db_index_file db' = db_index_file db"
proof -
  obtain wal where wal: "Wal_append_entry (WalEntry.Set k f) (db_wal db) = (Inr (), wal)"
    "wal_entries wal = db_log db @ [WalEntry.Set k f]" "db_rep X nm (db\<lparr>db_wal := wal\<rparr>) ss"
    using db_rep_append [OF rep _ assms(4)] assms(2,3) by auto
  have "db_rep X nm (update_fields (hm_insert k f) (db\<lparr>db_wal := wal\<rparr>)) ss"
    using db_rep_update_fields [OF wal(3)] db_repD(8) [OF rep] by simp
  then show ?thesis using wal by (auto simp: Database_set_def)
qed

lemma Database_delete_ok:
  assumes rep: "db_rep X nm db ss" and "storable_key k"
  shows "\<exists>db'. Database_delete k db = (Inr (), db') \<and> db_rep X nm db' ss
    \<and> db_log db' = db_log db @ [WalEntry.Delete k] \<and> db_fields db' = (db_fields db)(k := None)
    \<and> db_index db' = db_index db \<and> db_file db' = db_file db \<and> db_index_file db' = db_index_file db"
proof -
  obtain wal where wal: "Wal_append_entry (WalEntry.Delete k) (db_wal db) = (Inr (), wal)"
    "wal_entries wal = db_log db @ [WalEntry.Delete k]" "db_rep X nm (db\<lparr>db_wal := wal\<rparr>) ss"
    using db_rep_append [OF rep, of "WalEntry.Delete k"] assms(2) db_repD(11) [OF rep] by auto
  have "db_rep X nm (update_fields (hm_remove k) (db\<lparr>db_wal := wal\<rparr>)) ss"
    using db_rep_update_fields [OF wal(3)] db_repD(8) [OF rep] by simp
  then show ?thesis using wal by (auto simp: Database_delete_def)
qed

section \<open>Opening\<close>

text \<open>A file closed and opened again: the same content, positioned at its start.\<close>

definition reopened :: "File \<Rightarrow> File" where
  "reopened f = f\<lparr>f_pos := 0, f_late := None, f_plan := []\<rparr>"

lemma reopened_simps [simp]:
  "f_bytes (reopened f) = f_bytes f" "f_pos (reopened f) = 0" "f_plan (reopened f) = []"
  "f_late (reopened f) = None" "f_append (reopened f) = f_append f"
  by (simp_all add: reopened_def)

text \<open>The fields a database has when it is opened: the log replayed over the data file.\<close>

definition replayed :: "WalEntry list \<Rightarrow> slot list \<Rightarrow> Key \<Rightarrow> Field option" where
  "replayed es ss k = (case logged es k of None \<Rightarrow> slots_map ss k | Some v \<Rightarrow> v)"

lemma hm_wf_index_slots: "hm_wf (index_slots X ss)"
proof -
  have "hm_wf m \<Longrightarrow> hm_wf (add_all (slot_bytes X) index_slot p ss m)" for p m
  proof (induction ss arbitrary: p m)
    case (Cons s ss)
    then show ?case by (cases s) auto
  qed simp
  then show ?thesis by (simp add: index_slots_def)
qed

lemma load_index_ok:
  assumes "byteorder X" and rep: "db_rep X nm db ss"
    and "f_bytes (db_index_file db) = [] \<Longrightarrow> \<forall>s \<in> set ss. rebuildable_slot s"
  shows "\<exists>index. load_index X (f_bytes (db_file db)) (f_bytes (db_index_file db)) = Inr index \<and> hm_wf index
    \<and> (if f_bytes (db_index_file db) = [] then hm_get index = slots_index X ss
       else hm_get index = db_index db)"
proof (cases "f_bytes (db_index_file db) = []")
  case True
  obtain rc where "f_bytes (db_file db) = header_bytes rc nm @ slots_bytes X ss" using db_repD(6) [OF rep] by blast
  then have "load_index X (f_bytes (db_file db)) (f_bytes (db_index_file db)) = Inr (index_slots X ss)"
    using byteorder.decode_index_from_db_slots [OF assms(1) db_repD(5) [OF rep] assms(3) [OF True], of rc] True
    by (simp add: load_index_def)
  then show ?thesis using True by (auto simp: slots_index_def fun_eq_iff hm_wf_index_slots)
next
  case False
  then obtain ord m where m: "hash_order ord" "hm_wf m" "hm_get m = db_index db"
    "f_bytes (db_index_file db) = index_file_bytes ord m"
    using db_repD(12) [OF rep] by (auto simp: index_stored_def)
  have "sized_entry (k, e)" if "hm_get m k = Some e" for k e
    using slots_index_sized [OF db_repD(7) [OF rep] db_repD(10) [OF rep]] that by (simp add: m(3))
  from byteorder.decode_index_file_bytes [OF assms(1) m(1,2) this] False m(3,4)
  show ?thesis by (auto simp: load_index_def fun_eq_iff)
qed

lemma Wal_open_reopened:
  assumes "byteorder X" and "wal_inv wal"
  shows "\<exists>wal'. Wal_open X (Inr (reopened (wal_file wal))) = Inr wal' \<and> wal_inv wal' \<and> wal_ready wal'
    \<and> wal_entries wal' = wal_entries wal"
  using assms(2) byteorder.decode_wal_bytes [OF assms(1), of "wal_entries wal"]
  by (simp add: Wal_open_decode wal_inv_def wal_ready_def handler_ready_def)

lemma is_new_file_reopened: "is_new_file (reopened f) = (Inr (f_bytes f = []), reopened f)"
  by (simp add: is_new_file_def file_defs)

text \<open>What opening the files of a database computes.\<close>

lemma Database_open_run:
  assumes "byteorder X" and "length name \<le> 64" and "length nm = 64"
    and fb: "f_bytes fd = header_bytes rc nm @ slots_bytes X ss" and "\<forall>s \<in> set ss. storable_slot s"
    and "load_index X (f_bytes fd) (f_bytes fi) = Inr index" and "Wal_open X opened_wal = Inr wal"
  shows "fst (Database_open X name (Inr (reopened fd)) (Inr (reopened fi)) opened_wal)
    = Inr \<lparr>db_state = \<lparr>st_fields = fold apply_wal_entry (wal_entries wal) (fold load_slot ss hm_new),
          st_index = index\<rparr>,
        db_wal = wal, db_file = (reopened fd)\<lparr>f_pos := length (f_bytes fd)\<rparr>,
        db_index_file = (reopened fi)\<lparr>f_pos := length (f_bytes fi)\<rparr>\<rparr>"
proof -
  have "f_bytes fd \<noteq> []" by (simp add: fb header_bytes_def)
  moreover obtain meta where "decode_db X (f_bytes fd) = Inr (fold load_slot ss hm_new, meta)"
    using byteorder.decode_db_slots [OF assms(1,3,5), of rc] fb by simp
  ultimately show ?thesis
    using assms(2,6,7)
    by (simp add: Database_open_def is_new_file_reopened Database_init_def file_defs
        Wal_pop_uncommited_entries_def FileHandler_spawn_def Let_def)
qed

lemma get_replay_slots:
  "hm_get (fold apply_wal_entry es (fold load_slot ss hm_new)) = replayed es ss"
  by (rule ext) (simp add: replayed_def hm_get_apply_wal hm_get_load_slots split: option.split)

text \<open>Closing a database without a flush and opening it again.\<close>

definition Database_restart :: "third_party \<Rightarrow> rstring \<Rightarrow> Database \<Rightarrow> Database PDBResult" where
  "Database_restart X name db =
     fst (Database_open X name (Inr (reopened (db_file db))) (Inr (reopened (db_index_file db)))
       (Inr (reopened (wal_file (db_wal db)))))"

lemma Database_restart_ok:
  assumes "byteorder X" and rep: "db_rep X nm db ss" and "length name \<le> 64"
    and "f_bytes (db_index_file db) = [] \<Longrightarrow> \<forall>s \<in> set ss. rebuildable_slot s"
  shows "\<exists>db'. Database_restart X name db = Inr db'
    \<and> db_rep X nm db' ss \<and> db_log db' = db_log db
    \<and> f_bytes (db_file db') = f_bytes (db_file db) \<and> f_bytes (db_index_file db') = f_bytes (db_index_file db)
    \<and> db_fields db' = replayed (db_log db) ss
    \<and> db_index db' = (if f_bytes (db_index_file db) = [] then slots_index X ss else db_index db)"
proof -
  note D = db_repD [OF rep]
  obtain rc where fb: "f_bytes (db_file db) = header_bytes rc nm @ slots_bytes X ss" using D(6) by blast
  obtain index where index: "load_index X (f_bytes (db_file db)) (f_bytes (db_index_file db)) = Inr index"
    "hm_wf index" "hm_get index = (if f_bytes (db_index_file db) = [] then slots_index X ss else db_index db)"
    using load_index_ok [OF assms(1) rep assms(4)] by (auto split: if_split_asm)
  obtain wal where wal: "Wal_open X (Inr (reopened (wal_file (db_wal db)))) = Inr wal" "wal_inv wal" "wal_ready wal"
    "wal_entries wal = db_log db"
    using Wal_open_reopened [OF assms(1) D(4)] by blast
  note run = Database_open_run [OF assms(1,3) D(5) fb D(7) index(1) wal(1), folded Database_restart_def]
  let ?db' = "\<lparr>db_state = \<lparr>st_fields = fold apply_wal_entry (wal_entries wal) (fold load_slot ss hm_new),
      st_index = index\<rparr>, db_wal = wal,
    db_file = (reopened (db_file db))\<lparr>f_pos := length (f_bytes (db_file db))\<rparr>,
    db_index_file = (reopened (db_index_file db))\<lparr>f_pos := length (f_bytes (db_index_file db))\<rparr>\<rparr>"
  have "index_stored ?db'"
    using D(12) index(3) by (auto simp: index_stored_def)
  then have "db_rep X nm ?db' ss"
    using D wal index(2,3) fb
    by (auto simp: db_rep_def handler_seekable_def handler_ready_def log_size_def hm_wf_apply_wal hm_wf_load_slots split: if_split_asm)
  then show ?thesis
    using run index(3) wal(4) by (intro exI [of _ ?db']) (simp add: get_replay_slots)
qed

text \<open>Opening a database whose data file is empty.\<close>

definition empty_file :: "bool \<Rightarrow> File" where
  "empty_file app = \<lparr>f_bytes = [], f_pos = 0, f_append = app, f_late = None, f_plan = []\<rparr>"

definition fresh_database :: "rstring \<Rightarrow> Wal \<Rightarrow> Database" where
  "fresh_database name wal =
     \<lparr>db_state = \<lparr>st_fields = hm_new, st_index = hm_new\<rparr>, db_wal = wal,
      db_file = \<lparr>f_bytes = header_bytes 0 (name_field name), f_pos = 114, f_append = False, f_late = None, f_plan = []\<rparr>,
      db_index_file = empty_file False\<rparr>"

lemma Database_open_new_ok:
  assumes "length name \<le> 64" and "Wal_open X opened_wal = Inr wal"
  shows "fst (Database_open X name (Inr (empty_file False)) (Inr (empty_file False)) opened_wal)
    = Inr (fresh_database name wal)"
proof -
  have "length (header_bytes 0 (name_field name)) = 114" by (simp add: length_header_bytes)
  moreover have "header_bytes 0 (name_field name) \<noteq> []" by (simp add: header_bytes_def)
  ultimately show ?thesis
    using assms
    by (simp add: Database_open_def is_new_file_def Database_new_def DBEncoder_header DBEncoder_finish_def
        DBEncoder_new_def empty_file_def fresh_database_def file_defs Let_def FileHandler_spawn_def
        write_bytes_def zero_extend_def splice_def)
qed

lemma fresh_database_rep:
  assumes "wal_ready wal" and "wal_inv wal" and "114 + sum_list (map record_size (wal_entries wal)) < 2 ^ 64"
  shows "db_rep X (name_field name) (fresh_database name wal) []"
  using assms
  by (auto simp: db_rep_def fresh_database_def empty_file_def handler_seekable_def handler_ready_def length_header_bytes
      log_size_def index_stored_def)

end
