(* ===== verification/Durable_Store.thy ===== *)
theory Durable_Store
  imports Database_Rep
begin

text \<open>
  The contract of the storage engine and its refinement. A client sees a map: \<open>set\<close> and
  \<open>delete\<close> change it, a flush and a restart do not (\<open>op_map\<close>). \<open>run_ops\<close> performs a history
  of operations as the code does, on files; \<open>op_disk\<close> tracks how many records of each key the data
  file holds, and \<open>admissible_all\<close> says which histories the files keep up with. The simulation
  relation is \<open>tracks\<close>. The last section shows why the side condition on deletions is needed.
\<close>

section \<open>The store\<close>

datatype op = OpSet Key Field | OpDelete Key | OpFlush "Key list \<Rightarrow> Key list" | OpRestart

text \<open>The meaning of the operations: a flush and a restart are invisible.\<close>

fun op_map :: "op \<Rightarrow> (Key \<Rightarrow> Field option) \<Rightarrow> (Key \<Rightarrow> Field option)" where
  "op_map (OpSet k f) m = m(k \<mapsto> f)"
| "op_map (OpDelete k) m = m(k := None)"
| "op_map (OpFlush ord) m = m"
| "op_map OpRestart m = m"

text \<open>
  What decides whether the files keep up: the log not yet flushed, the number of records of each
  key in the data file, and a bound on the bytes used.
\<close>

record disk =
  pending :: "WalEntry list"
  versions :: "Key \<Rightarrow> nat"
  used :: nat

fun op_disk :: "op \<Rightarrow> disk \<Rightarrow> disk" where
  "op_disk (OpSet k f) d =
     d\<lparr>pending := pending d @ [WalEntry.Set k f], used := used d + record_size (WalEntry.Set k f)\<rparr>"
| "op_disk (OpDelete k) d = d\<lparr>pending := pending d @ [WalEntry.Delete k]\<rparr>"
| "op_disk (OpFlush ord) d =
     d\<lparr>pending := [],
       versions := (\<lambda>k. case logged (pending d) k of None \<Rightarrow> versions d k
         | Some (Some f) \<Rightarrow> Suc (versions d k) | Some None \<Rightarrow> versions d k - 1)\<rparr>"
| "op_disk OpRestart d = d"

text \<open>
  The operations the files keep up with: lengths that fit their fields, a nonempty key, room in
  the file, and at a flush no deleted key with two records in the data file.
\<close>

fun admissible :: "op \<Rightarrow> disk \<Rightarrow> bool" where
  "admissible (OpSet k f) d =
     (storable_key k \<and> storable_field f \<and> \<not> Key_is_empty k
      \<and> used d + record_size (WalEntry.Set k f) < 2 ^ 64)"
| "admissible (OpDelete k) d = storable_key k"
| "admissible (OpFlush ord) d =
     (hash_order ord
      \<and> list_all (\<lambda>e. logged (pending d) (WalEntry_key e) = Some None
           \<longrightarrow> versions d (WalEntry_key e) \<le> 1) (pending d))"
| "admissible OpRestart d = True"

fun admissible_all :: "op list \<Rightarrow> disk \<Rightarrow> bool" where
  "admissible_all [] d = True"
| "admissible_all (op # ops) d = (admissible op d \<and> admissible_all ops (op_disk op d))"

definition empty_disk :: disk where
  "empty_disk = \<lparr>pending = [], versions = (\<lambda>_. 0), used = 114\<rparr>"

text \<open>The operations as the code performs them.\<close>

fun run_op :: "third_party \<Rightarrow> rstring \<Rightarrow> op \<Rightarrow> Database \<Rightarrow> Database PDBResult" where
  "run_op X name (OpSet k f) db = (case Database_set k f db of (r, db) \<Rightarrow> and_then r (\<lambda>_. Inr db))"
| "run_op X name (OpDelete k) db = (case Database_delete k db of (r, db) \<Rightarrow> and_then r (\<lambda>_. Inr db))"
| "run_op X name (OpFlush ord) db = (case Database_flush X ord db of (r, db) \<Rightarrow> and_then r (\<lambda>_. Inr db))"
| "run_op X name OpRestart db = Database_restart X name db"

fun run_ops :: "third_party \<Rightarrow> rstring \<Rightarrow> op list \<Rightarrow> Database \<Rightarrow> Database PDBResult" where
  "run_ops X name [] db = Inr db"
| "run_ops X name (op # ops) db = and_then (run_op X name op db) (run_ops X name ops)"

section \<open>Databases whose files keep up with memory\<close>

definition nonempty_entry :: "WalEntry \<Rightarrow> bool" where
  "nonempty_entry e = (is_delete e \<or> \<not> Key_is_empty (WalEntry_key e))"

definition db_clean :: "third_party \<Rightarrow> bytes \<Rightarrow> Database \<Rightarrow> slot list \<Rightarrow> bool" where
  "db_clean X nm db ss =
     (db_rep X nm db ss \<and> db_fields db = replayed (db_log db) ss \<and> db_index db = slots_index X ss
      \<and> (\<forall>s \<in> set ss. rebuildable_slot s) \<and> (\<forall>e \<in> set (db_log db). nonempty_entry e))"

definition tracks :: "third_party \<Rightarrow> bytes \<Rightarrow> Database \<Rightarrow> (Key \<Rightarrow> Field option) \<Rightarrow> disk \<Rightarrow> bool" where
  "tracks X nm db m d =
     (\<exists>ss. db_clean X nm db ss \<and> db_fields db = m \<and> db_log db = pending d
        \<and> (\<forall>k. length (live_values ss k) = versions d k)
        \<and> length (f_bytes (db_file db)) + log_size db \<le> used d)"

lemma rebuildable_iff: "rebuildable_slot s \<longleftrightarrow> storable_slot s \<and> (\<forall>f. s \<noteq> Live Key_empty f)"
proof (cases s)
  case (Live k f)
  then show ?thesis by (cases k) (auto simp: Key_is_empty_def Key_empty_def)
qed simp

lemma flush_slot_rebuildable:
  assumes "\<forall>s \<in> set ss. rebuildable_slot s" and "storable_entry e" and "nonempty_entry e"
  shows "\<forall>s \<in> set (flush_slot e ss). rebuildable_slot s"
proof (cases e)
  case (Set k f)
  then show ?thesis using assms by (auto simp: nonempty_entry_def)
next
  case (Delete k)
  have st: "\<forall>s \<in> set ss. storable_slot s" using assms(1) by (simp add: rebuildable_iff)
  show ?thesis
    using assms(1) by (cases rule: kill_last_cases [OF st, of k]) (auto simp: Delete)
qed

lemma flush_slots_rebuildable:
  "\<forall>s \<in> set ss. rebuildable_slot s \<Longrightarrow> \<forall>e \<in> set es. storable_entry e \<and> nonempty_entry e
    \<Longrightarrow> \<forall>s \<in> set (fold flush_slot es ss). rebuildable_slot s"
proof (induction es arbitrary: ss)
  case (Cons e es)
  then show ?case using flush_slot_rebuildable [of ss e] by simp
qed simp

lemma flushed_slots_rebuildable:
  assumes "db_rep X nm db ss" and ord: "hash_order ord" and "\<forall>s \<in> set ss. rebuildable_slot s"
    and "\<forall>e \<in> set (db_log db). nonempty_entry e"
  shows "\<forall>s \<in> set (flushed_slots ord db ss). rebuildable_slot s"
proof -
  have "set (written (flush_plan ord db) (hm_into_values ord (net_entries (db_log db)))) \<subseteq> set (db_log db)"
    using net_values_sub [OF ord, of "db_log db"] by (auto simp: written_def dest: mset_subset_eqD)
  then show ?thesis
    unfolding flushed_slots_def using assms(3,4) db_repD(4) [OF assms(1)]
    by (intro flush_slots_rebuildable) (auto simp: wal_inv_def)
qed

lemma replayed_snoc:
  "replayed (es @ [WalEntry.Set k f]) ss = (replayed es ss)(k \<mapsto> f)"
  "replayed (es @ [WalEntry.Delete k]) ss = (replayed es ss)(k := None)"
  by (auto simp: replayed_def)

lemma replayed_Nil: "replayed [] ss = slots_map ss"
  by (rule ext) (simp add: replayed_def)

lemma run_set:
  assumes "tracks X nm db m d" and "admissible (OpSet k f) d"
  shows "\<exists>db'. run_op X name (OpSet k f) db = Inr db' \<and> tracks X nm db' (op_map (OpSet k f) m) (op_disk (OpSet k f) d)"
proof -
  obtain ss where ss: "db_clean X nm db ss" "db_fields db = m" "db_log db = pending d"
    "\<forall>k. length (live_values ss k) = versions d k" "length (f_bytes (db_file db)) + log_size db \<le> used d"
    using assms(1) unfolding tracks_def by blast
  then have rep: "db_rep X nm db ss" by (simp add: db_clean_def)
  obtain db' where db': "Database_set k f db = (Inr (), db')" "db_rep X nm db' ss"
    "db_log db' = db_log db @ [WalEntry.Set k f]" "db_fields db' = (db_fields db)(k \<mapsto> f)"
    "db_index db' = db_index db" "db_file db' = db_file db"
    using Database_set_ok [OF rep, of k f] assms(2) ss(5) by auto
  have "db_clean X nm db' ss"
    using ss(1) db' assms(2) by (simp add: db_clean_def replayed_snoc nonempty_entry_def)
  then have "tracks X nm db' (op_map (OpSet k f) m) (op_disk (OpSet k f) d)"
    unfolding tracks_def using ss db' by (intro exI [of _ ss]) (simp add: log_size_def)
  then show ?thesis using db'(1) by simp
qed

lemma run_delete:
  assumes "tracks X nm db m d" and "admissible (OpDelete k) d"
  shows "\<exists>db'. run_op X name (OpDelete k) db = Inr db' \<and> tracks X nm db' (op_map (OpDelete k) m) (op_disk (OpDelete k) d)"
proof -
  obtain ss where ss: "db_clean X nm db ss" "db_fields db = m" "db_log db = pending d"
    "\<forall>k. length (live_values ss k) = versions d k" "length (f_bytes (db_file db)) + log_size db \<le> used d"
    using assms(1) unfolding tracks_def by blast
  then have rep: "db_rep X nm db ss" by (simp add: db_clean_def)
  obtain db' where db': "Database_delete k db = (Inr (), db')" "db_rep X nm db' ss"
    "db_log db' = db_log db @ [WalEntry.Delete k]" "db_fields db' = (db_fields db)(k := None)"
    "db_index db' = db_index db" "db_file db' = db_file db"
    using Database_delete_ok [OF rep, of k] assms(2) by auto
  have "db_clean X nm db' ss"
    using ss(1) db' by (simp add: db_clean_def replayed_snoc nonempty_entry_def)
  then have "tracks X nm db' (op_map (OpDelete k) m) (op_disk (OpDelete k) d)"
    unfolding tracks_def using ss db' by (intro exI [of _ ss]) (simp add: log_size_def)
  then show ?thesis using db'(1) by simp
qed

lemma run_restart:
  assumes "byteorder X" and "length name \<le> 64" and "tracks X nm db m d"
  shows "\<exists>db'. run_op X name OpRestart db = Inr db' \<and> tracks X nm db' m d"
proof -
  obtain ss where ss: "db_clean X nm db ss" "db_fields db = m" "db_log db = pending d"
    "\<forall>k. length (live_values ss k) = versions d k" "length (f_bytes (db_file db)) + log_size db \<le> used d"
    using assms(3) unfolding tracks_def by blast
  then have rep: "db_rep X nm db ss" and reb: "\<forall>s \<in> set ss. rebuildable_slot s" by (simp_all add: db_clean_def)
  obtain db' where db': "Database_restart X name db = Inr db'" "db_rep X nm db' ss" "db_log db' = db_log db"
    "f_bytes (db_file db') = f_bytes (db_file db)" "db_fields db' = replayed (db_log db) ss"
    "db_index db' = (if f_bytes (db_index_file db) = [] then slots_index X ss else db_index db)"
    using Database_restart_ok [OF assms(1) rep assms(2) reb] by blast
  have "db_clean X nm db' ss" using ss(1) db' by (simp add: db_clean_def)
  then have "tracks X nm db' m d"
    unfolding tracks_def using ss db' by (intro exI [of _ ss]) (simp add: log_size_def db_clean_def)
  then show ?thesis using db'(1) by simp
qed

lemma logged_in: "logged es k = Some v \<Longrightarrow> \<exists>e \<in> set es. WalEntry_key e = k"
  using hm_get_net_entries_in by (fastforce simp: logged_net)

text \<open>After an admissible flush the data file alone gives the fields.\<close>

lemma flush_clean:
  assumes clean: "db_clean X nm db ss" and ord: "hash_order ord"
    and single: "\<And>k. logged (db_log db) k = Some None \<Longrightarrow> length (live_values ss k) \<le> 1"
  shows "slots_map (flushed_slots ord db ss) = db_fields db"
    and "logged (db_log db) k = Some None \<Longrightarrow> slots_index X (flushed_slots ord db ss) k = None"
proof -
  have rep: "db_rep X nm db ss" and fld: "db_fields db = replayed (db_log db) ss"
    and idx: "db_index db = slots_index X ss"
    using clean by (auto simp: db_clean_def)
  note vals = live_values_flushed [OF ord db_repD(4,7) [OF rep]]
  have gone: "flushed_values db k (live_values ss k) = []" if "logged (db_log db) k = Some None" for k
  proof (cases "db_index db k")
    case None
    then have "slots_map ss k = None" by (simp add: idx slots_index_None_iff)
    then show ?thesis using that None
      by (simp add: flushed_values_def slots_map_live_values split: if_split_asm)
  next
    case (Some i)
    then show ?thesis using that single [OF that]
      by (cases "live_values ss k" rule: rev_cases) (auto simp: flushed_values_def)
  qed
  show map: "slots_map (flushed_slots ord db ss) = db_fields db"
  proof
    fix k
    show "slots_map (flushed_slots ord db ss) k = db_fields db k"
    proof (cases "logged (db_log db) k")
      case None
      then show ?thesis by (simp add: fld replayed_def slots_map_live_values vals flushed_values_def)
    next
      case (Some v)
      then show ?thesis
        using gone [of k]
        by (cases v) (simp_all add: fld replayed_def slots_map_live_values vals flushed_values_def)
    qed
  qed
  show "slots_index X (flushed_slots ord db ss) k = None" if "logged (db_log db) k = Some None"
    using that by (simp add: slots_index_None_iff map fld replayed_def)
qed

lemma run_flush:
  assumes "tracks X nm db m d" and "admissible (OpFlush ord) d"
  shows "\<exists>db'. run_op X name (OpFlush ord) db = Inr db' \<and> tracks X nm db' m (op_disk (OpFlush ord) d)"
proof -
  obtain ss where ss: "db_clean X nm db ss" "db_fields db = m" "db_log db = pending d"
    "\<forall>k. length (live_values ss k) = versions d k" "length (f_bytes (db_file db)) + log_size db \<le> used d"
    using assms(1) unfolding tracks_def by blast
  have ord: "hash_order ord" using assms(2) by simp
  have rep: "db_rep X nm db ss" and idx: "db_index db = slots_index X ss"
    and fld: "db_fields db = replayed (db_log db) ss"
    using ss(1) by (auto simp: db_clean_def)
  have single: "length (live_values ss k) \<le> 1" if "logged (db_log db) k = Some None" for k
    using assms(2) that ss(3,4) logged_in [OF that] by (auto simp: list_all_iff)
  let ?ss = "flushed_slots ord db ss"
  obtain db' where db': "Database_flush X ord db = (Inr (), db')" "db_rep X nm db' ?ss" "db_log db' = []"
    "\<forall>k. db_fields db' k = (if hm_get (flush_plan ord db) k \<noteq> None then None else db_fields db k)"
    "\<forall>k. db_index db' k = (case logged (db_log db) k of None \<Rightarrow> db_index db k | Some None \<Rightarrow> None
          | Some (Some f) \<Rightarrow> slots_index X ?ss k)"
    using Database_flush_ok [OF rep ord] by blast
  have same: "db_fields db' = db_fields db"
    using db'(4) by (auto simp: flush_plan_get [OF ord] fld replayed_def)
  have idx': "db_index db' = slots_index X ?ss"
    using db'(5) flush_slots_keep [OF rep ord] flush_clean(2) [OF ss(1) ord single]
    by (auto simp: fun_eq_iff idx split: option.split)
  have reb: "\<forall>s \<in> set ?ss. rebuildable_slot s"
    by (rule flushed_slots_rebuildable [OF rep ord]) (use ss(1) in \<open>simp_all add: db_clean_def\<close>)
  have "db_clean X nm db' ?ss"
    using db'(2,3) same idx' reb flush_clean(1) [OF ss(1) ord single] by (simp add: db_clean_def replayed_Nil)
  moreover have "length (live_values ?ss k) = versions (op_disk (OpFlush ord) d) k" for k
  proof -
    have "live_values ss k = []" if "db_index db k = None"
      using that by (simp add: idx slots_index_None_iff slots_map_live_values split: if_split_asm)
    then show ?thesis
      using ss(3) by (auto simp: ss(4) [rule_format, symmetric] live_values_flushed [OF ord db_repD(4,7) [OF rep]]
          flushed_values_def split: option.split)
  qed
  moreover have "length (f_bytes (db_file db')) + log_size db' \<le> used d"
    using flush_length(1) [OF rep ord] db_rep_file_length [OF rep] db_rep_file_length [OF db'(2)] ss(5) db'(3)
    by (simp add: log_size_def)
  ultimately have "tracks X nm db' m (op_disk (OpFlush ord) d)"
    unfolding tracks_def using same ss(2) db'(3) by (intro exI [of _ ?ss]) simp
  then show ?thesis using db'(1) by simp
qed

lemma run_all:
  assumes "byteorder X" and "length name \<le> 64" and "tracks X nm db m d" and "admissible_all ops d"
  shows "\<exists>db'. run_ops X name ops db = Inr db' \<and> tracks X nm db' (fold op_map ops m) (fold op_disk ops d)"
  using assms(3,4)
proof (induction ops arbitrary: db m d)
  case (Cons op ops)
  have "\<exists>db'. run_op X name op db = Inr db' \<and> tracks X nm db' (op_map op m) (op_disk op d)"
  proof (cases op)
    case (OpSet k f)
    then show ?thesis using run_set [OF Cons.prems(1)] Cons.prems(2) by auto
  next
    case (OpDelete k)
    then show ?thesis using run_delete [OF Cons.prems(1)] Cons.prems(2) by auto
  next
    case (OpFlush ord)
    then show ?thesis using run_flush [OF Cons.prems(1)] Cons.prems(2) by auto
  next
    case OpRestart
    then show ?thesis using run_restart [OF assms(1,2) Cons.prems(1)] by auto
  qed
  then obtain db' where "run_op X name op db = Inr db'" "tracks X nm db' (op_map op m) (op_disk op d)" by blast
  with Cons.IH [of db' "op_map op m" "op_disk op d"] Cons.prems(2) show ?case by auto
qed simp

text \<open>A database just created, with an empty log.\<close>

definition new_database :: "third_party \<Rightarrow> rstring \<Rightarrow> Database PDBResult" where
  "new_database X name = fst (Database_open X name (Inr (empty_file False)) (Inr (empty_file False))
     (Inr (empty_file True)))"

lemma Wal_open_empty: "Wal_open X (Inr (empty_file True)) = Inr \<lparr>wal_file = empty_file True, wal_entries = []\<rparr>"
  by (simp add: Wal_open_decode empty_file_def decode_wal_def WalDecoder_decode_wal_entries.simps has_more_iff
      WalDecoder_finish_def)

lemma new_database_tracks:
  assumes "length name \<le> 64"
  shows "\<exists>db. new_database X name = Inr db \<and> tracks X (name_field name) db (\<lambda>_. None) empty_disk"
proof -
  let ?wal = "\<lparr>wal_file = empty_file True, wal_entries = []\<rparr>"
  have "new_database X name = Inr (fresh_database name ?wal)"
    unfolding new_database_def by (rule Database_open_new_ok [OF assms Wal_open_empty])
  moreover have rep: "db_rep X (name_field name) (fresh_database name ?wal) []"
    by (rule fresh_database_rep) (simp_all add: wal_ready_def handler_ready_def wal_inv_def empty_file_def)
  have "tracks X (name_field name) (fresh_database name ?wal) (\<lambda>_. None) empty_disk"
    unfolding tracks_def db_clean_def using rep
    by (intro exI [of _ "[]"])
      (simp add: fresh_database_def replayed_def empty_disk_def log_size_def length_header_bytes fun_eq_iff
        slots_index_eq)
  ultimately show ?thesis by blast
qed

lemma distinct_hm_keys: "hash_order ord \<Longrightarrow> hm_wf m \<Longrightarrow> distinct (hm_keys ord m)"
  by (simp add: hm_keys_def hash_order_distinct hm_wf_def)

lemma flush_values_step:
  assumes rep: "db_rep X nm db ss" and ord: "hash_order ord" and "db_log db = [e]" and "WalEntry_key e = k"
    and idx: "is_delete e \<Longrightarrow> db_index db k \<noteq> None"
  shows "live_values (flushed_slots ord db ss) k = entry_values e (live_values ss k)"
  using live_values_flushed [OF ord db_repD(4,7) [OF rep], of k] assms(3-5) logged_simps(2,3) [of "[]"]
  by (cases e) (auto simp: flushed_values_def)

text \<open>Overwriting a flushed key, flushing, deleting it, flushing: the older record stays.\<close>

lemma overwrite_then_delete:
  assumes X: "byteorder X" and name: "length name \<le> 64" and ord: "hash_order ord"
    and clean: "db_clean X nm db ss" and log: "db_log db = []" and old: "db_fields db k = Some f"
    and st: "storable_key k" "storable_field g" "\<not> Key_is_empty k"
    and room: "length (f_bytes (db_file db)) + record_size (WalEntry.Set k g) < 2 ^ 64"
  shows "\<exists>db1 db2. run_ops X name [OpSet k g, OpFlush ord, OpDelete k, OpFlush ord] db = Inr db1
    \<and> db_fields db1 k = None \<and> run_op X name OpRestart db1 = Inr db2 \<and> db_fields db2 k = Some f"
proof -
  have rep: "db_rep X nm db ss" and reb: "\<forall>s \<in> set ss. rebuildable_slot s"
    using clean by (auto simp: db_clean_def)
  have "slots_map ss k = Some f" using clean log old by (simp add: db_clean_def replayed_Nil)
  then obtain vs where vs: "live_values ss k = vs @ [f]"
    by (cases "live_values ss k" rule: rev_cases) (auto simp: slots_map_live_values)
  obtain d1 where d1: "Database_set k g db = (Inr (), d1)" "db_rep X nm d1 ss" "db_log d1 = [WalEntry.Set k g]"
    using Database_set_ok [OF rep st(1,2)] room log by (auto simp: log_size_def)
  let ?ss1 = "flushed_slots ord d1 ss"
  obtain d2 where d2: "Database_flush X ord d1 = (Inr (), d2)" "db_rep X nm d2 ?ss1" "db_log d2 = []"
    "db_index d2 k = slots_index X ?ss1 k"
    using Database_flush_ok [OF d1(2) ord] d1(3) logged_simps(2) [of "[]" k g k] by fastforce
  have v1: "live_values ?ss1 k = vs @ [f, g]"
    using flush_values_step [OF d1(2) ord d1(3)] vs by simp
  have reb1: "\<forall>s \<in> set ?ss1. rebuildable_slot s"
    by (rule flushed_slots_rebuildable [OF d1(2) ord reb]) (simp add: d1(3) nonempty_entry_def st)
  obtain d3 where d3: "Database_delete k d2 = (Inr (), d3)" "db_rep X nm d3 ?ss1"
    "db_log d3 = [WalEntry.Delete k]" "db_index d3 = db_index d2"
    using Database_delete_ok [OF d2(2) st(1)] d2(3) by auto
  have i3: "db_index d3 k \<noteq> None"
    using v1 by (simp add: d3(4) d2(4) slots_index_None_iff slots_map_live_values)
  let ?ss2 = "flushed_slots ord d3 ?ss1"
  have l3: "logged (db_log d3) k = Some None" using logged_simps(3) [of "[]" k k] by (simp add: d3(3))
  obtain d4 where d4: "Database_flush X ord d3 = (Inr (), d4)" "db_rep X nm d4 ?ss2" "db_log d4 = []"
    "db_fields d4 k = None"
    using Database_flush_ok [OF d3(2) ord] l3 i3 by (auto simp: flush_plan_get [OF ord])
  have v2: "live_values ?ss2 k = vs @ [f]"
    using flush_values_step [OF d3(2) ord d3(3)] i3 v1 by (simp add: butlast_append)
  have "\<forall>s \<in> set ?ss2. rebuildable_slot s"
    by (rule flushed_slots_rebuildable [OF d3(2) ord reb1]) (simp add: d3(3) nonempty_entry_def)
  then obtain d5 where d5: "Database_restart X name d4 = Inr d5" "db_fields d5 = replayed (db_log d4) ?ss2"
    using Database_restart_ok [OF X d4(2) name] by blast
  have "db_fields d5 k = Some f" using v2 by (simp add: d5(2) d4(3) replayed_Nil slots_map_live_values)
  then show ?thesis using d1(1) d2(1) d3(1) d4(1,4) d5(1) by auto
qed

lemma run_ops_append: "run_ops X name (ops @ ops') db = and_then (run_ops X name ops db) (run_ops X name ops')"
proof (induction ops arbitrary: db)
  case (Cons op ops)
  then show ?case by (cases "run_op X name op db") simp_all
qed simp

section \<open>Properties\<close>

lemma logged_code: "logged es k = map_of (rev (map entry_update es)) k"
  by (simp add: logged_def last_update_def)

lemmas admissible_eval = empty_disk_def storable_key_def storable_field_def Key_len_def Key_is_empty_def
  hash_order_instances logged_code

text \<open>
  C1. The engine is a durable map: after any admissible history of sets, deletes, flushes (in any
  hash order) and restarts, starting from a database just created, every operation has succeeded,
  \<open>get\<close> returns what the map of sets and deletes says, and \<open>keys\<close> lists its domain without
  repetition.
\<close>

theorem store_refines_map:
  assumes "byteorder X" and "length name \<le> 64" and "admissible_all ops empty_disk"
  shows "\<exists>db. and_then (new_database X name) (run_ops X name ops) = Inr db
    \<and> (\<forall>k. Database_get k db = (case fold op_map ops (\<lambda>_. None) k of
          Some f \<Rightarrow> Inr f | None \<Rightarrow> Inl (Err KeyNotFound)))
    \<and> (\<forall>ord. hash_order ord \<longrightarrow> (\<exists>ks. Database_keys ord db = Inr ks \<and> distinct ks
          \<and> set ks = {k. fold op_map ops (\<lambda>_. None) k \<noteq> None}))"
proof -
  obtain db0 where db0: "new_database X name = Inr db0" "tracks X (name_field name) db0 (\<lambda>_. None) empty_disk"
    using new_database_tracks [OF assms(2)] by blast
  obtain db where db: "run_ops X name ops db0 = Inr db"
    "tracks X (name_field name) db (fold op_map ops (\<lambda>_. None)) (fold op_disk ops empty_disk)"
    using run_all [OF assms(1,2) db0(2) assms(3)] by blast
  then have m: "db_fields db = fold op_map ops (\<lambda>_. None)" and wf: "hm_wf (st_fields (db_state db))"
    by (auto simp: tracks_def db_clean_def db_rep_def)
  show ?thesis
    using db0(1) db(1) m wf
    by (auto simp: Database_get_def Database_keys_def set_hm_keys distinct_hm_keys split: option.split)
qed

theorem store_refines_map_witness:
  "\<exists>db. and_then (new_database (documented_crates (\<lambda>_. 7)) (ascii ''peach''))
      (run_ops (documented_crates (\<lambda>_. 7)) (ascii ''peach'')
        [OpSet (Key [107]) (Field.Raw [1]), OpFlush rev, OpSet (Key [108]) (Field.Raw [2]), OpRestart,
         OpDelete (Key [107]), OpFlush sort, OpRestart]) = Inr db
    \<and> Database_get (Key [108]) db = Inr (Field.Raw [2])
    \<and> Database_get (Key [107]) db = Inl (Err KeyNotFound)"
proof -
  have "admissible_all [OpSet (Key [107]) (Field.Raw [1]), OpFlush rev, OpSet (Key [108]) (Field.Raw [2]), OpRestart,
         OpDelete (Key [107]), OpFlush sort, OpRestart] empty_disk"
    by (simp add: admissible_eval)
  from store_refines_map [OF documented.byteorder_axioms [of "\<lambda>_. 7"] _ this, of "ascii ''peach''"]
  show ?thesis by auto
qed

text \<open>
  C28. The side condition is needed. A flush appends a new record for a key it already stored and
  leaves the old one live, and a later delete tombstones only the newest: in every history that ends
  in a flush with key \<open>k\<close> stored as \<open>f\<close>, overwriting \<open>k\<close>, flushing, deleting it and flushing makes
  \<open>get\<close> report it missing, yet after a restart \<open>get\<close> returns the old value \<open>f\<close> again.
\<close>

theorem deleted_key_returns:
  assumes "byteorder X" and "length name \<le> 64" and "hash_order ord"
    and "admissible_all ops empty_disk" and "pending (fold op_disk ops empty_disk) = []"
    and "fold op_map ops (\<lambda>_. None) k = Some f" and "admissible (OpSet k g) (fold op_disk ops empty_disk)"
  shows "\<exists>db1 db2. and_then (new_database X name)
        (run_ops X name (ops @ [OpSet k g, OpFlush ord, OpDelete k, OpFlush ord])) = Inr db1
    \<and> Database_get k db1 = Inl (Err KeyNotFound)
    \<and> Database_restart X name db1 = Inr db2 \<and> Database_get k db2 = Inr f"
proof -
  obtain db0 where db0: "new_database X name = Inr db0" "tracks X (name_field name) db0 (\<lambda>_. None) empty_disk"
    using new_database_tracks [OF assms(2)] by blast
  obtain db where db: "run_ops X name ops db0 = Inr db"
    "tracks X (name_field name) db (fold op_map ops (\<lambda>_. None)) (fold op_disk ops empty_disk)"
    using run_all [OF assms(1,2) db0(2) assms(4)] by blast
  then obtain ss where ss: "db_clean X (name_field name) db ss" "db_fields db k = Some f" "db_log db = []"
    "length (f_bytes (db_file db)) \<le> used (fold op_disk ops empty_disk)"
    using assms(5,6) by (auto simp: tracks_def)
  have st: "storable_key k" "storable_field g" "\<not> Key_is_empty k"
    and "length (f_bytes (db_file db)) + record_size (WalEntry.Set k g) < 2 ^ 64"
    using assms(7) ss(4) by auto
  then obtain db1 db2 where "run_ops X name [OpSet k g, OpFlush ord, OpDelete k, OpFlush ord] db = Inr db1"
    "db_fields db1 k = None" "run_op X name OpRestart db1 = Inr db2" "db_fields db2 k = Some f"
    using overwrite_then_delete [OF assms(1-3) ss(1,3,2)] by blast
  then show ?thesis using db0(1) db(1) by (auto simp: run_ops_append Database_get_def)
qed

theorem deleted_key_returns_witness:
  "\<exists>db1 db2. and_then (new_database (documented_crates (\<lambda>_. 7)) (ascii ''peach''))
        (run_ops (documented_crates (\<lambda>_. 7)) (ascii ''peach'')
          ([OpSet (Key [107]) (Field.Raw [1]), OpFlush rev]
           @ [OpSet (Key [107]) (Field.Raw [2]), OpFlush rev, OpDelete (Key [107]), OpFlush rev])) = Inr db1
    \<and> Database_get (Key [107]) db1 = Inl (Err KeyNotFound)
    \<and> Database_restart (documented_crates (\<lambda>_. 7)) (ascii ''peach'') db1 = Inr db2
    \<and> Database_get (Key [107]) db2 = Inr (Field.Raw [1])"
  by (rule deleted_key_returns [OF documented.byteorder_axioms])
    (simp_all add: admissible_eval)

end
