(* ===== verification/Crash_Safety.thy ===== *)
theory Crash_Safety
  imports Durable_Store
begin

text \<open>
  What survives failures. \<open>with_plans\<close> gives the three files of a database outcomes for their
  next calls; \<open>recoverable\<close> says that a map is what opening the files gives, and the lemmas follow
  it through a \<open>set\<close> and through every point at which a flush can stop. A flush loses nothing when
  its calls fail without writing, at once or late; a \<open>set\<close> whose write fails late is acknowledged and
  lost. Writes that fail half-way, and keys longer than the log's length field, leave files that cannot
  be opened.
\<close>

lemma admissible_all_append:
  "admissible_all (ops @ ops') d \<longleftrightarrow> admissible_all ops d \<and> admissible_all ops' (fold op_disk ops d)"
  by (induction ops arbitrary: d) auto

lemma admissible_flush_single:
  assumes "admissible (OpFlush ord) d" and "logged (pending d) k = Some None" and "length vs = versions d k"
  shows "length vs \<le> 1"
  using assms logged_in [OF assms(2)] by (auto simp: list_all_iff)


section \<open>Files from which a map is recovered\<close>

definition index_readable :: "FileHandler \<Rightarrow> bool" where
  "index_readable fi = (f_bytes fi = []
     \<or> (\<exists>ord m. hash_order ord \<and> hm_wf m \<and> (\<forall>k e. hm_get m k = Some e \<longrightarrow> sized_entry (k, e))
          \<and> f_bytes fi = index_file_bytes ord m))"

definition recoverable ::
    "third_party \<Rightarrow> bytes \<Rightarrow> (Key \<Rightarrow> Field option) \<Rightarrow> FileHandler \<Rightarrow> FileHandler \<Rightarrow> FileHandler \<Rightarrow> bool" where
  "recoverable X nm m fd fi fw =
     (length nm = 64 \<and> index_readable fi
      \<and> (\<exists>rc ss es. f_bytes fd = header_bytes rc nm @ slots_bytes X ss \<and> (\<forall>s \<in> set ss. rebuildable_slot s)
          \<and> f_bytes fw = wal_bytes es \<and> (\<forall>e \<in> set es. storable_entry e) \<and> replayed es ss = m))"

lemma load_index_readable:
  assumes "byteorder X" and "length nm = 64" and "index_readable fi" and "\<forall>s \<in> set ss. rebuildable_slot s"
  shows "\<exists>index. load_index X (header_bytes rc nm @ slots_bytes X ss) (f_bytes fi) = Inr index"
proof (cases "f_bytes fi = []")
  case True
  then show ?thesis
    using byteorder.decode_index_from_db_slots [OF assms(1,2,4)] by (simp add: load_index_def)
next
  case False
  then obtain ord m where m: "hash_order ord" "hm_wf m" "\<And>k e. hm_get m k = Some e \<Longrightarrow> sized_entry (k, e)"
    "f_bytes fi = index_file_bytes ord m"
    using assms(3) by (auto simp: index_readable_def)
  from byteorder.decode_index_file_bytes [OF assms(1) m(1-3)] False m(4)
  show ?thesis by (auto simp: load_index_def)
qed

lemma recoverable_restart:
  assumes "byteorder X" and "length name \<le> 64"
    and rec: "recoverable X nm m (db_file db) (db_index_file db) (wal_file (db_wal db))"
  shows "\<exists>db'. Database_restart X name db = Inr db' \<and> db_fields db' = m"
proof -
  obtain rc ss es where nm: "length nm = 64" and idx: "index_readable (db_index_file db)"
    and fb: "f_bytes (db_file db) = header_bytes rc nm @ slots_bytes X ss"
    and reb: "\<forall>s \<in> set ss. rebuildable_slot s" and wal: "f_bytes (wal_file (db_wal db)) = wal_bytes es"
      "\<forall>e \<in> set es. storable_entry e" and m: "replayed es ss = m"
    using rec unfolding recoverable_def by blast
  have st: "\<forall>s \<in> set ss. storable_slot s" using reb by (simp add: rebuildable_iff)
  obtain index where "load_index X (f_bytes (db_file db)) (f_bytes (db_index_file db)) = Inr index"
    using load_index_readable [OF assms(1) nm idx reb] fb by metis
  moreover obtain w where "Wal_open X (Inr (reopened (wal_file (db_wal db)))) = Inr w" "wal_entries w = es"
    using byteorder.decode_wal_bytes [OF assms(1) wal(2)] wal(1) by (simp add: Wal_open_decode)
  ultimately show ?thesis
    using Database_open_run [OF assms(1,2) nm fb st] by (simp add: Database_restart_def get_replay_slots m)
qed

section \<open>The steps of a flush, whatever fails\<close>

lemma write_record_count_any:
  assumes "data_handle h" and "f_bytes h = header_bytes rc nm @ rest" and "length nm = 64"
  shows "\<exists>r h' rc'. FileHandler_write_at RECORD_COUNT_OFFSET (to_le_bytes 8 (c :: u64)) h = (r, h')
    \<and> f_bytes h' = header_bytes rc' nm @ rest \<and> (late h \<longrightarrow> (\<exists>e. r = Inl e))"
proof -
  let ?pre = "DB_HEADER_KEY @ to_le_bytes 8 DB_HEADER_MAGIC @ DB_VERSION_KEY
    @ [DB_VERSION, DB_VERSION_DECIMAL] @ DB_RECORD_COUNT_KEY"
  have "f_bytes h = ?pre @ to_le_bytes 8 rc @ DB_NAME_KEY @ nm @ rest"
    by (simp add: assms(2) header_bytes_def)
  moreover have "unat RECORD_COUNT_OFFSET = length ?pre" by (simp add: RECORD_COUNT_OFFSET_def)
  ultimately have "\<exists>r h'. FileHandler_write_at RECORD_COUNT_OFFSET (to_le_bytes 8 c) h = (r, h') \<and> data_handle h'
      \<and> (r = Inr () \<and> \<not> late h \<and> (late h' \<and> f_bytes h' = f_bytes h
             \<or> \<not> late h' \<and> f_bytes h' = ?pre @ to_le_bytes 8 c @ DB_NAME_KEY @ nm @ rest)
         \<or> (\<exists>e. r = Inl e) \<and> f_bytes h' = f_bytes h)"
    by (rule failing.write_at_mid_any [OF assms(1)]) simp_all
  then obtain r h' where "FileHandler_write_at RECORD_COUNT_OFFSET (to_le_bytes 8 c) h = (r, h')"
    "f_bytes h' = header_bytes c nm @ rest \<or> f_bytes h' = header_bytes rc nm @ rest"
    "late h \<longrightarrow> (\<exists>e. r = Inl e)"
    using assms(2) by (auto simp: header_bytes_def)
  then show ?thesis by blast
qed

lemma Database_rebuild_index_any:
  assumes "data_handle (db_index_file db)"
  shows "\<exists>r h. Database_rebuild_index ord db = (r, db\<lparr>db_index_file := h\<rparr>)
    \<and> f_bytes h \<in> {f_bytes (db_index_file db), [], index_file_bytes ord (st_index (db_state db))}"
proof -
  let ?data = "index_file_bytes ord (st_index (db_state db))"
  obtain r1 h1 where h1: "FileHandler_set_len 0 (db_index_file db) = (r1, h1)" "data_handle h1"
    "r1 = Inr () \<and> f_bytes h1 = [] \<or> (\<exists>e. r1 = Inl e) \<and> f_bytes h1 = f_bytes (db_index_file db)"
    using failing.truncate_any [OF assms] by blast
  show ?thesis
  proof (cases r1)
    case (Inl e)
    then show ?thesis using h1 by (intro exI) (auto simp: Database_rebuild_index_def Let_def)
  next
    case (Inr u)
    obtain r2 h2 where h2: "FileHandler_write_at 0 ?data h1 = (r2, h2)" "data_handle h2"
      "f_bytes h2 \<in> {[], ?data}"
      using failing.write_at_empty_any [OF h1(2), of ?data] h1(3) Inr by auto
    obtain r3 h3 where h3: "FileHandler_sync_all h2 = (r3, h3)" "f_bytes h3 = f_bytes h2"
      using failing.sync_any [OF h2(2)] by blast
    show ?thesis
    proof (cases r2)
      case (Inl e)
      then show ?thesis
        using h1 h2 Inr by (intro exI [of _ "map_handler_result r2"] exI [of _ h2])
          (auto simp: Database_rebuild_index_def IndexEncoder_file Let_def)
    next
      case r2: (Inr u')
      then show ?thesis
        using h1 h2 h3 Inr by (intro exI [of _ "map_handler_result r3"] exI [of _ h3])
          (auto simp: Database_rebuild_index_def IndexEncoder_file Let_def)
    qed
  qed
qed

lemma Wal_checkpoint_any:
  "\<exists>r wal'. Wal_checkpoint wal = (r, wal') \<and> f_bytes (wal_file wal') \<in> {f_bytes (wal_file wal), []}"
proof -
  obtain r1 h1 where h1: "FileHandler_set_len 0 (wal_file wal) = (r1, h1)"
    "f_bytes h1 \<in> {f_bytes (wal_file wal), []}"
    by (cases "f_plan (wal_file wal)"; cases "hd (f_plan (wal_file wal))")
      (auto simp: handler_defs zero_extend_def)
  obtain r2 h2 where h2: "FileHandler_sync_all h1 = (r2, h2)" "f_bytes h2 = f_bytes h1"
    using FileHandler_sync_keeps(1) [of h1] by (metis surj_pair snd_conv)
  show ?thesis
    using h1 h2 by (cases r1; cases r2) (auto simp: Wal_checkpoint_def Let_def)
qed

text \<open>The log still holds what the flush was writing, so a part of it changes nothing.\<close>

lemma replayed_partial:
  assumes rep: "db_rep X nm db ss" and ord: "hash_order ord"
    and w: "w = written plan (hm_into_values ord (net_entries (db_log db)))"
  shows "replayed (db_log db) (fold flush_slot (take j w) ss) = replayed (db_log db) ss"
proof
  fix k
  have sub: "set (take j w) \<subseteq> set (hm_into_values ord (net_entries (db_log db)))"
    using set_take_subset [of j w] by (auto simp: w written_def)
  then have st: "\<forall>e \<in> set (take j w). storable_entry e"
    using set_net_values [OF ord, of "db_log db"] db_repD(4) [OF rep] by (auto simp: wal_inv_def)
  have dist: "distinct (map WalEntry_key (take j w))"
    using net_values_distinct [OF ord, of "db_log db"]
    by (simp add: w written_def distinct_map_filter take_map [symmetric])
  show "replayed (db_log db) (fold flush_slot (take j w) ss) k = replayed (db_log db) ss k"
  proof (cases "logged (db_log db) k")
    case None
    then have "find (\<lambda>e. WalEntry_key e = k) (take j w) = None"
      using sub by (auto simp: find_None_iff in_net_values_iff [OF ord] logged_net)
    with None show ?thesis
      by (simp add: replayed_def slots_map_live_values flush_slots_values [OF st db_repD(7) [OF rep] dist])
  qed (simp add: replayed_def)
qed

lemma flush_tail_any:
  assumes "data_handle (db_file db)" and "data_handle (db_index_file db)" and "length nm = 64"
    and "f_bytes (db_file db) = header_bytes rc nm @ rest"
  shows "\<exists>r db' rc'. db_then Database_update_record_count (db_then (Database_rebuild_index ord) Database_checkpoint) db
      = (r, db')
    \<and> f_bytes (db_file db') = header_bytes rc' nm @ rest
    \<and> f_bytes (db_index_file db')
        \<in> {f_bytes (db_index_file db), [], index_file_bytes ord (st_index (db_state db))}
    \<and> f_bytes (wal_file (db_wal db')) \<in> {f_bytes (wal_file (db_wal db)), []}
    \<and> (late (db_file db) \<longrightarrow> db_index_file db' = db_index_file db \<and> db_wal db' = db_wal db)"
proof -
  obtain r1 h1 rc' where h1: "FileHandler_write_at RECORD_COUNT_OFFSET
      (to_le_bytes 8 (of_nat (hm_len (st_fields (db_state db))) :: u64)) (db_file db) = (r1, h1)"
    "f_bytes h1 = header_bytes rc' nm @ rest" "late (db_file db) \<longrightarrow> (\<exists>e. r1 = Inl e)"
    using write_record_count_any [OF assms(1,4,3)] by blast
  let ?db1 = "db\<lparr>db_file := h1\<rparr>"
  have count: "Database_update_record_count db = (map_handler_result r1, ?db1)"
    using h1(1) by (simp add: Database_update_record_count_def Let_def)
  obtain r2 h2 where h2: "Database_rebuild_index ord ?db1 = (r2, ?db1\<lparr>db_index_file := h2\<rparr>)"
    "f_bytes h2 \<in> {f_bytes (db_index_file db), [], index_file_bytes ord (st_index (db_state db))}"
    using Database_rebuild_index_any [of ?db1 ord] assms(2) by auto
  obtain r3 w where w: "Wal_checkpoint (db_wal db) = (r3, w)"
    "f_bytes (wal_file w) \<in> {f_bytes (wal_file (db_wal db)), []}"
    using Wal_checkpoint_any by blast
  show ?thesis
  proof (cases r1)
    case (Inl e)
    then show ?thesis using count h1(2) by (auto simp: db_then_def)
  next
    case r1: (Inr u)
    show ?thesis
    proof (cases r2)
      case (Inl e)
      then show ?thesis using count r1 h1(2,3) h2 by (auto simp: db_then_def)
    next
      case (Inr v)
      then show ?thesis using count r1 h1(2,3) h2 w by (auto simp: db_then_def Database_checkpoint_def)
    qed
  qed
qed

definition with_plans :: "io_outcome list \<Rightarrow> io_outcome list \<Rightarrow> io_outcome list \<Rightarrow> Database \<Rightarrow> Database" where
  "with_plans p q r db =
     db\<lparr>db_file := (db_file db)\<lparr>f_plan := p\<rparr>, db_index_file := (db_index_file db)\<lparr>f_plan := q\<rparr>,
        db_wal := (db_wal db)\<lparr>wal_file := (wal_file (db_wal db))\<lparr>f_plan := r\<rparr>\<rparr>\<rparr>"

lemma with_plans_simps [simp]:
  "db_state (with_plans p q r db) = db_state db"
  "db_file (with_plans p q r db) = (db_file db)\<lparr>f_plan := p\<rparr>"
  "db_index_file (with_plans p q r db) = (db_index_file db)\<lparr>f_plan := q\<rparr>"
  "db_log (with_plans p q r db) = db_log db"
  "f_bytes (wal_file (db_wal (with_plans p q r db))) = f_bytes (wal_file (db_wal db))"
  "flush_plan ord (with_plans p q r db) = flush_plan ord db"
  by (simp_all add: with_plans_def flush_plan_def)

lemma index_stored_readable:
  assumes "db_rep X nm db ss" and "f_bytes fi \<in> {f_bytes (db_index_file db), []}"
  shows "index_readable fi"
proof -
  have "sized_entry (k, e)" if "db_index db k = Some e" for k e
    using slots_index_sized [OF db_repD(7) [OF assms(1)] db_repD(10) [OF assms(1) that]] .
  then show ?thesis using assms(2) db_repD(12) [OF assms(1)]
    by (fastforce simp: index_readable_def index_stored_def)
qed

lemma commit_index_readable:
  assumes rep: "db_rep X nm db ss" and ord: "hash_order ord"
    and "\<forall>k. k \<in> fst ` set new \<longleftrightarrow> (\<exists>f. logged (db_log db) k = Some (Some f))"
    and "\<forall>(k, i) \<in> set new. slots_index X (flushed_slots ord db ss) k = Some i"
    and fi: "f_bytes fi \<in> {f_bytes (db_index_file db), [],
      index_file_bytes ord (st_index (commit_state ord new (flush_plan ord db) (db_state db)))}"
  shows "index_readable fi"
proof (cases "f_bytes fi \<in> {f_bytes (db_index_file db), []}")
  case True
  then show ?thesis by (rule index_stored_readable [OF rep])
next
  case False
  let ?index = "st_index (commit_state ord new (flush_plan ord db) (db_state db))"
  have "sized_entry (k, e)" if "hm_get ?index k = Some e" for k e
    using slots_index_sized [OF flush_length(2) [OF rep ord] flush_index_sub [OF assms(1-4) that]] .
  moreover have "hm_wf ?index" by (rule commit_state_wf(1) [OF db_repD(9) [OF rep]])
  ultimately show ?thesis using False fi ord by (auto simp: index_readable_def)
qed

text \<open>With the log still there, any prefix of the flush leaves the map recoverable.\<close>

lemma partial_recoverable:
  assumes clean: "db_clean X nm db ss" and ord: "hash_order ord"
    and w: "w = written (flush_plan ord db) (hm_into_values ord (net_entries (db_log db)))"
    and "f_bytes fd = header_bytes rc nm @ slots_bytes X (fold flush_slot (take j w) ss)"
    and "index_readable fi" and "f_bytes fw = f_bytes (wal_file (db_wal db))"
  shows "recoverable X nm (db_fields db) fd fi fw"
proof -
  have rep: "db_rep X nm db ss" and fld: "db_fields db = replayed (db_log db) ss"
    using clean by (auto simp: db_clean_def)
  note D = db_repD [OF rep]
  have sub: "set (take j w) \<subseteq> set (db_log db)"
    using set_net_values [OF ord, of "db_log db"] set_take_subset [of j w] by (auto simp: w written_def)
  have "\<forall>s \<in> set (fold flush_slot (take j w) ss). rebuildable_slot s"
    using sub D(4) clean by (intro flush_slots_rebuildable) (auto simp: wal_inv_def db_clean_def)
  then show ?thesis
    using assms(4-6) D(4,5) replayed_partial [OF rep ord w, of j] fld
    unfolding recoverable_def wal_inv_def by metis
qed

text \<open>With the flush complete, the log may be there or not.\<close>

lemma complete_recoverable:
  assumes clean: "db_clean X nm db ss" and ord: "hash_order ord"
    and single: "\<And>k. logged (db_log db) k = Some None \<Longrightarrow> length (live_values ss k) \<le> 1"
    and fb: "f_bytes fd = header_bytes rc nm @ slots_bytes X (flushed_slots ord db ss)"
    and fi: "index_readable fi" and fw: "f_bytes fw \<in> {f_bytes (wal_file (db_wal db)), []}"
  shows "recoverable X nm (db_fields db) fd fi fw"
proof (cases "f_bytes fw = []")
  case True
  have rep: "db_rep X nm db ss" using clean by (simp add: db_clean_def)
  have "\<forall>s \<in> set (flushed_slots ord db ss). rebuildable_slot s"
    by (rule flushed_slots_rebuildable [OF rep ord]) (use clean in \<open>simp_all add: db_clean_def\<close>)
  moreover have "replayed [] (flushed_slots ord db ss) = db_fields db"
    by (simp add: replayed_Nil flush_clean(1) [OF clean ord single])
  ultimately show ?thesis
    unfolding recoverable_def using fb fi True db_repD(5) [OF rep]
    by (intro conjI exI [of _ rc] exI [of _ "flushed_slots ord db ss"] exI [of _ "[]"]) auto
next
  case False
  let ?w = "written (flush_plan ord db) (hm_into_values ord (net_entries (db_log db)))"
  show ?thesis
    by (rule partial_recoverable [OF clean ord refl, of fd rc "length ?w"])
      (use fb fi fw False in \<open>auto simp: flushed_slots_def\<close>)
qed

lemma Database_flush_any:
  assumes clean: "db_clean X nm db ss" and ord: "hash_order ord"
    and single: "\<And>k. logged (db_log db) k = Some None \<Longrightarrow> length (live_values ss k) \<le> 1"
    and plans: "list_all clean_outcome p" "list_all clean_outcome q"
  shows "\<exists>res db'. Database_flush X ord (with_plans p q r db) = (res, db')
    \<and> recoverable X nm (db_fields db) (db_file db') (db_index_file db') (wal_file (db_wal db'))"
proof -
  have rep: "db_rep X nm db ss" using clean by (simp add: db_clean_def)
  note D = db_repD [OF rep]
  let ?db = "with_plans p q r db" and ?plan = "flush_plan ord db"
  let ?vals = "hm_into_values ord (net_entries (db_log db))"
  have old: "index_readable (db_index_file ?db)" by (rule index_stored_readable [OF rep]) simp
  obtain rc where fb: "f_bytes (db_file db) = header_bytes rc nm @ slots_bytes X ss" using D(6) by blast
  obtain r1 h1 where loop: "flush_entries X ?plan ?vals (db_file ?db) [] DBDeleter_new = (r1, h1)"
    "data_handle h1" "loop_outcome X ?plan ?vals (header_bytes rc nm) ss [] r1 (late h1) (f_bytes h1)"
    using flush_loop_any [OF rep ord, of "db_file ?db" rc] fb plans(1) D(1)
    by (auto simp: data_handle_def failing_cleanly_def handler_seekable_def)
  obtain r2 h2 where h2: "FileHandler_sync_all h1 = (r2, h2)" "data_handle h2" "f_bytes h2 = f_bytes h1"
    "late h2 \<longleftrightarrow> late h1"
    using failing.sync_any [OF loop(2)] by blast
  note run = Database_flush_def Wal_pop_uncommited_entries_def flush_plan_def Let_def
  show ?thesis
  proof (cases r1)
    case (Inl e)
    then obtain j where "f_bytes h1 = header_bytes rc nm @ slots_bytes X (fold flush_slot (take j (written ?plan ?vals)) ss)"
      using loop(3) by (auto simp: loop_outcome_def)
    from partial_recoverable [OF clean ord refl this old, of "wal_file (db_wal ?db)"]
    show ?thesis using loop(1) Inl by (simp add: run)
  next
    case (Inr new)
    have idx: "data_handle (db_index_file ?db)"
      using D(2) plans(2) by (simp add: data_handle_def failing_cleanly_def handler_seekable_def)
    have tail: "\<exists>r3 db' rc'. db_then Database_update_record_count
          (db_then (Database_rebuild_index ord) Database_checkpoint)
          (?db\<lparr>db_file := h2, db_state := commit_state ord new ?plan (db_state db)\<rparr>) = (r3, db')
        \<and> f_bytes (db_file db') = header_bytes rc' nm @ rest
        \<and> f_bytes (db_index_file db') \<in> {f_bytes (db_index_file db), [],
          index_file_bytes ord (st_index (commit_state ord new ?plan (db_state db)))}
        \<and> f_bytes (wal_file (db_wal db')) \<in> {f_bytes (wal_file (db_wal db)), []}
        \<and> (late h1 \<longrightarrow> db_index_file db' = db_index_file ?db \<and> db_wal db' = db_wal ?db)"
      if "f_bytes h1 = header_bytes rc nm @ rest" for rest
      using flush_tail_any [of "?db\<lparr>db_file := h2, db_state := commit_state ord new ?plan (db_state db)\<rparr>" nm rc rest ord]
        that h2 idx D(5) by simp
    show ?thesis
    proof (cases "\<exists>j. f_bytes h1 = header_bytes rc nm @ slots_bytes X (fold flush_slot (take j (written ?plan ?vals)) ss)
        \<and> late h1")
      case True
      then obtain j where part: "late h1"
          "f_bytes h1 = header_bytes rc nm @ slots_bytes X (fold flush_slot (take j (written ?plan ?vals)) ss)" by blast
      show ?thesis
      proof (cases r2)
        case (Inl e)
        then show ?thesis
          using loop(1) Inr h2(1) partial_recoverable [OF clean ord refl _ old, of h2 rc j "wal_file (db_wal ?db)"]
            part(2) h2(3)
          by (simp add: run)
      next
        case r2: (Inr u)
        obtain r3 db' rc' where t: "db_then Database_update_record_count
            (db_then (Database_rebuild_index ord) Database_checkpoint)
            (?db\<lparr>db_file := h2, db_state := commit_state ord new ?plan (db_state db)\<rparr>) = (r3, db')"
          "f_bytes (db_file db') = header_bytes rc' nm @ slots_bytes X (fold flush_slot (take j (written ?plan ?vals)) ss)"
          "db_index_file db' = db_index_file ?db" "db_wal db' = db_wal ?db"
          using tail [OF part(2)] part(1) by blast
        have "recoverable X nm (db_fields db) (db_file db') (db_index_file db') (wal_file (db_wal db'))"
          by (rule partial_recoverable [OF clean ord refl t(2)]) (use t(3,4) old in simp_all)
        then show ?thesis using loop(1) Inr h2(1) r2 t(1) by (simp add: run)
      qed
    next
      case False
      then have new: "f_bytes h1 = header_bytes rc nm @ slots_bytes X (flushed_slots ord db ss)"
        "\<forall>k. k \<in> fst ` set new \<longleftrightarrow> (\<exists>f. logged (db_log db) k = Some (Some f))"
        "\<forall>(k, i) \<in> set new. slots_index X (flushed_slots ord db ss) k = Some i"
        using loop(3) Inr unfolding loop_outcome_def
        by (auto simp: flushed_slots_def set_in_net_values [OF ord])
      show ?thesis
      proof (cases r2)
        case (Inl e)
        then show ?thesis
          using loop(1) Inr h2(1,3) new(1) complete_recoverable [OF clean ord single _ old, of h2 rc "wal_file (db_wal ?db)"]
          by (simp add: run)
      next
        case r2: (Inr u)
        obtain r3 db' rc' where t: "db_then Database_update_record_count
            (db_then (Database_rebuild_index ord) Database_checkpoint)
            (?db\<lparr>db_file := h2, db_state := commit_state ord new ?plan (db_state db)\<rparr>) = (r3, db')"
          "f_bytes (db_file db') = header_bytes rc' nm @ slots_bytes X (flushed_slots ord db ss)"
          "f_bytes (db_index_file db') \<in> {f_bytes (db_index_file db), [],
            index_file_bytes ord (st_index (commit_state ord new ?plan (db_state db)))}"
          "f_bytes (wal_file (db_wal db')) \<in> {f_bytes (wal_file (db_wal db)), []}"
          using tail [OF new(1)] by blast
        have "recoverable X nm (db_fields db) (db_file db') (db_index_file db') (wal_file (db_wal db'))"
          by (rule complete_recoverable [OF clean ord single t(2) commit_index_readable [OF rep ord new(2,3) t(3)] t(4)])
        then show ?thesis using loop(1) Inr h2(1) r2 t(1) by (simp add: run)
      qed
    qed
  qed
qed

lemma hash_order_single: "hash_order ord \<Longrightarrow> ord [k] = [k]"
  unfolding hash_order_def by (metis mset_single_iff_right mset.simps(1,2) add_mset_eq_singleton_iff mset_single_iff)

lemma net_values_single:
  "hash_order ord \<Longrightarrow> hm_into_values ord (net_entries [e]) = [e]"
  by (simp add: hm_into_values_def net_entries_def hm_iter_def hm_keys_def hash_order_single hm_insert_def
      hm_new_def List.map_filter_simps)

text \<open>A record cut short by a failing write.\<close>

lemma FileHandler_append_torn:
  assumes "f_plan h = [IoOk, out]" and "f_late h = None" and "out = IoFail err n \<or> out = IoLate err n" and "data \<noteq> []"
  shows "\<exists>h'. FileHandler_append data h = (if out = IoLate err n then Inr (of_nat (length (f_bytes h))) else Inl err, h')
    \<and> f_bytes h' = f_bytes h @ take n data \<and> f_plan h' = []
    \<and> f_late h' = (if out = IoLate err n then Some err else None)"
  using assms by (auto simp: handler_defs write_bytes_at_end)

lemma FileHandler_write_at_pending:
  "f_plan h = [] \<Longrightarrow> f_late h = Some err \<Longrightarrow> data \<noteq> []
    \<Longrightarrow> FileHandler_write_at pos data h = (Inl err, h\<lparr>f_pos := unat pos, f_late := None\<rparr>)"
  by (simp add: handler_defs)

lemma Database_open_torn:
  assumes "byteorder X" and "length name \<le> 64" and "length nm = 64"
    and fb: "f_bytes fd = header_bytes rc nm @ slots_bytes X ss @ take n (slot_bytes X s)"
    and "\<forall>s \<in> set (ss @ [s]). storable_slot s" and "0 < n" and "n < length (slot_bytes X s)"
    and "Wal_open X opened_wal = Inr wal"
  shows "fst (Database_open X name (Inr (reopened fd)) (Inr (reopened fi)) opened_wal) = Inl (Err (Io eof_error))"
proof -
  have "f_bytes fd \<noteq> []" by (simp add: fb header_bytes_def)
  moreover have "decode_db X (f_bytes fd) = Inl (Err (Io eof_error))"
    unfolding fb by (rule byteorder.decode_db_torn [OF assms(1,3), where s = s and zs = "drop n (slot_bytes X s)"])
      (use assms in simp_all)
  ultimately show ?thesis
    using assms(2,8)
    by (simp add: Database_open_def is_new_file_reopened Database_init_def file_defs Let_def)
qed

text \<open>What an append can come to when no failing write transfers anything.\<close>

lemma FileHandler_append_clean:
  assumes "failing_cleanly h" and "f_late h = None" and "data \<noteq> []"
  shows "\<exists>r h'. FileHandler_append data h = (r, h')
    \<and> (r = Inr (of_nat (length (f_bytes h))) \<and> \<not> late h' \<and> f_bytes h' = f_bytes h @ data
       \<or> r = Inr (of_nat (length (f_bytes h))) \<and> late h' \<and> f_bytes h' = f_bytes h
       \<or> (\<exists>e. r = Inl e) \<and> \<not> late h' \<and> f_bytes h' = f_bytes h)"
  using assms
  by (cases h rule: plan_cases)
    (auto simp: failing_cleanly_def handler_defs write_bytes_at_end elim!: clean_outcome.elims)

lemma Wal_append_entry_clean:
  assumes "failing_cleanly (wal_file wal)" and "f_late (wal_file wal) = None"
  shows "\<exists>r wal'. Wal_append_entry e wal = (r, wal')
    \<and> (r = Inr () \<and> wal_entries wal' = wal_entries wal @ [e]
       \<or> (\<exists>msg. r = Inl (Err (Io (io_other msg)))) \<and> wal_entries wal' \<in> {wal_entries wal, wal_entries wal @ [e]})
    \<and> f_bytes (wal_file wal') = (if wal_entries wal' = wal_entries wal \<or> late (wal_file wal')
         then f_bytes (wal_file wal) else f_bytes (wal_file wal) @ wal_entry_bytes e)"
proof -
  have "wal_entry_bytes e \<noteq> []" by (cases e) (simp_all add: wal_entry_bytes_simps)
  then obtain r1 h1 where h1: "FileHandler_append (wal_entry_bytes e) (wal_file wal) = (r1, h1)"
    "r1 = Inr (of_nat (length (f_bytes (wal_file wal)))) \<and> \<not> late h1
        \<and> f_bytes h1 = f_bytes (wal_file wal) @ wal_entry_bytes e
      \<or> r1 = Inr (of_nat (length (f_bytes (wal_file wal)))) \<and> late h1 \<and> f_bytes h1 = f_bytes (wal_file wal)
      \<or> (\<exists>e. r1 = Inl e) \<and> \<not> late h1 \<and> f_bytes h1 = f_bytes (wal_file wal)"
    using FileHandler_append_clean [OF assms] by blast
  obtain r2 h2 where h2: "FileHandler_sync_all h1 = (r2, h2)" by force
  then have sync: "f_bytes h2 = f_bytes h1" "f_late h2 = f_late h1"
    using FileHandler_sync_keeps [of h1] by simp_all
  show ?thesis
    using h1 h2 sync
    by (cases r1; cases r2) (auto simp: Wal_append_entry_def wal_entry_bytes_def [symmetric]
        map_file_handler_error_def Let_def)
qed

lemma recoverable_clean:
  assumes "db_clean X nm db ss"
  shows "recoverable X nm (db_fields db) (db_file db) (db_index_file db) (wal_file (db_wal db))"
proof -
  have rep: "db_rep X nm db ss" using assms by (simp add: db_clean_def)
  note D = db_repD [OF rep]
  have "index_readable (db_index_file db)" by (rule index_stored_readable [OF rep]) simp
  then show ?thesis
    using D(4,5,6) assms unfolding recoverable_def wal_inv_def db_clean_def by metis
qed

lemma recoverable_logged:
  assumes clean: "db_clean X nm db ss" and "storable_key k" and "storable_field f"
    and "f_bytes fd = f_bytes (db_file db)" and "f_bytes fi = f_bytes (db_index_file db)"
    and "f_bytes fw = f_bytes (wal_file (db_wal db)) @ wal_entry_bytes (WalEntry.Set k f)"
  shows "recoverable X nm ((db_fields db)(k \<mapsto> f)) fd fi fw"
proof -
  have rep: "db_rep X nm db ss" and fld: "db_fields db = replayed (db_log db) ss"
    and reb: "\<forall>s \<in> set ss. rebuildable_slot s"
    using clean by (auto simp: db_clean_def)
  note D = db_repD [OF rep]
  obtain rc where "f_bytes fd = header_bytes rc nm @ slots_bytes X ss" using D(6) assms(4) by auto
  moreover have "f_bytes fw = wal_bytes (db_log db @ [WalEntry.Set k f])" using assms(6) D(4) by (simp add: wal_inv_def)
  moreover have "\<forall>e \<in> set (db_log db @ [WalEntry.Set k f]). storable_entry e"
    using D(4) assms(2,3) by (auto simp: wal_inv_def)
  moreover have "index_readable fi" by (rule index_stored_readable [OF rep]) (simp add: assms(5))
  ultimately show ?thesis
    unfolding recoverable_def using D(5) reb fld
    by (intro conjI exI [of _ rc] exI [of _ ss] exI [of _ "db_log db @ [WalEntry.Set k f]"])
      (simp_all add: replayed_snoc)
qed

lemma recoverable_cong:
  "recoverable X nm m fd fi fw \<Longrightarrow> f_bytes fd' = f_bytes fd \<Longrightarrow> f_bytes fi' = f_bytes fi
    \<Longrightarrow> f_bytes fw' = f_bytes fw \<Longrightarrow> recoverable X nm m fd' fi' fw'"
  by (simp add: recoverable_def index_readable_def)

text \<open>
  A \<open>set\<close> is in the log file when it is in the log's entries and no failure is pending, whatever it
  returned.
\<close>

lemma Database_set_clean:
  assumes clean: "db_clean X nm db ss" and st: "storable_key k" "storable_field f"
    and r: "list_all clean_outcome r"
  shows "\<exists>res db1. Database_set k f (with_plans p q r db) = (res, db1)
    \<and> (res = Inr () \<and> db_log db1 = db_log db @ [WalEntry.Set k f] \<and> db_fields db1 = (db_fields db)(k \<mapsto> f)
       \<or> (\<exists>msg. res = Inl (Err (Io (io_other msg)))) \<and> db_log db1 \<in> {db_log db, db_log db @ [WalEntry.Set k f]}
         \<and> db_fields db1 = db_fields db)
    \<and> recoverable X nm (if db_log db1 = db_log db \<or> late (wal_file (db_wal db1)) then db_fields db else (db_fields db)(k \<mapsto> f))
        (db_file db1) (db_index_file db1) (wal_file (db_wal db1))"
proof -
  let ?db = "with_plans p q r db" and ?e = "WalEntry.Set k f"
  have rep: "db_rep X nm db ss" using clean by (simp add: db_clean_def)
  have "failing_cleanly (wal_file (db_wal ?db))" "f_late (wal_file (db_wal ?db)) = None"
    using r db_repD(3) [OF rep] by (simp_all add: with_plans_def failing_cleanly_def wal_ready_def handler_ready_def)
  from Wal_append_entry_clean [OF this, of ?e, unfolded with_plans_simps] obtain res w where
    w: "Wal_append_entry ?e (db_wal ?db) = (res, w)"
      "res = Inr () \<and> wal_entries w = db_log db @ [?e]
       \<or> (\<exists>msg. res = Inl (Err (Io (io_other msg)))) \<and> wal_entries w \<in> {db_log db, db_log db @ [?e]}"
      "f_bytes (wal_file w) = (if wal_entries w = db_log db \<or> late (wal_file w)
         then f_bytes (wal_file (db_wal db)) else f_bytes (wal_file (db_wal db)) @ wal_entry_bytes ?e)"
    by blast
  have rec: "recoverable X nm (if wal_entries w = db_log db \<or> late (wal_file w) then db_fields db else (db_fields db)(k \<mapsto> f))
      (db_file ?db) (db_index_file ?db) (wal_file w)"
  proof (cases "wal_entries w = db_log db \<or> late (wal_file w)")
    case True
    then show ?thesis using w(3) by (auto intro: recoverable_cong [OF recoverable_clean [OF clean]])
  next
    case False
    then show ?thesis using w(3) by (auto intro: recoverable_logged [OF clean st])
  qed
  from w(2) show ?thesis
  proof (elim disjE conjE exE)
    assume "res = Inr ()" "wal_entries w = db_log db @ [?e]"
    then show ?thesis using w(1) rec
      by (intro exI [of _ "Inr ()"] exI [of _ "update_fields (hm_insert k f) (?db\<lparr>db_wal := w\<rparr>)"])
        (auto simp: Database_set_def update_fields_def fun_eq_iff)
  next
    fix msg
    assume "res = Inl (Err (Io (io_other msg)))" "wal_entries w \<in> {db_log db, db_log db @ [?e]}"
    then show ?thesis using w(1) rec
      by (intro exI [of _ res] exI [of _ "?db\<lparr>db_wal := w\<rparr>"]) (auto simp: Database_set_def)
  qed
qed

lemma Wal_open_reopened_error:
  "wal_ready wal \<Longrightarrow> Wal_open X (Inr (wal_file wal)) = Inl e \<Longrightarrow> Wal_open X (Inr (reopened (wal_file wal))) = Inl e"
  by (cases "decode_wal X (f_bytes (wal_file wal))")
    (simp_all add: Wal_open_decode wal_ready_def handler_ready_def)

lemma Database_set_long_key:
  assumes "byteorder X" and "length name \<le> 64" and rep: "db_rep X nm db ss"
    and "Key_len k = 2 ^ 16"
    and "2 ^ 16 + length (bytes_from_field f) < unat (from_le_bytes (take 4 (Key_as_bytes k)) :: u32)"
  shows "\<exists>db1. Database_set k f db = (Inr (), db1) \<and> db_fields db1 k = Some f
    \<and> Database_restart X name db1 = Inl (Err (Io eof_error))"
proof -
  obtain wal where wal: "Wal_append_entry (WalEntry.Set k f) (db_wal db) = (Inr (), wal)"
    "Wal_open X (Inr (reopened (wal_file wal))) = Inl (Err (Io eof_error))"
    using long_key_log_not_opened [OF assms(1) db_repD(3,4) [OF rep] assms(4,5)] Wal_open_reopened_error
    by blast
  let ?db1 = "update_fields (hm_insert k f) (db\<lparr>db_wal := wal\<rparr>)"
  have "Database_set k f db = (Inr (), ?db1)" using wal(1) by (simp add: Database_set_def)
  moreover have "Database_restart X name ?db1 = Inl (Err (Io eof_error))"
    using wal(2) assms(2) by (simp add: Database_restart_def Database_open_def is_new_file_reopened update_fields_def)
  ultimately show ?thesis by (auto simp: update_fields_def)
qed

text \<open>A flush of one record whose append is cut short, and the log after a write that failed late.\<close>

lemma Database_flush_torn:
  assumes "hash_order ord" and log: "db_log db = [WalEntry.Set k f]" and late: "f_late (db_file db) = None"
    and out: "out = IoFail err n \<or> out = IoLate err n"
  shows "\<exists>db'. Database_flush X ord (with_plans [IoOk, out] q r db) = (Inl (Err (map_file_handler_error err)), db')
    \<and> f_bytes (db_file db') = f_bytes (db_file db) @ take n (encode X k f)
    \<and> db_wal db' = db_wal (with_plans [IoOk, out] q r db)
    \<and> db_index_file db' = db_index_file (with_plans [IoOk, out] q r db)"
proof -
  let ?db = "with_plans [IoOk, out] q r db"
  obtain h where h: "FileHandler_append (encode X k f) (db_file ?db)
      = (if out = IoLate err n then Inr (of_nat (length (f_bytes (db_file db)))) else Inl err, h)"
    "f_bytes h = f_bytes (db_file db) @ take n (encode X k f)" "f_plan h = []"
    "f_late h = (if out = IoLate err n then Some err else None)"
    using FileHandler_append_torn [of "db_file ?db" out err n "encode X k f"] late out by auto
  note run = Database_flush_def Wal_pop_uncommited_entries_def Let_def net_values_single [OF assms(1)] log
  show ?thesis
  proof (cases "out = IoLate err n")
    case False
    then show ?thesis using h(1,2) by (simp add: run)
  next
    case True
    have sync: "FileHandler_sync_all h = (Inr (), h)" using h(3) by (simp add: handler_defs)
    have "FileHandler_write_at RECORD_COUNT_OFFSET (to_le_bytes 8 c) h = (Inl err, h\<lparr>f_pos := unat RECORD_COUNT_OFFSET, f_late := None\<rparr>)"
      for c :: u64
      by (rule FileHandler_write_at_pending) (use h(3,4) True in simp_all)
    then show ?thesis
      using h(1,2) True sync by (simp add: run db_then_def Database_update_record_count_def)
  qed
qed

lemma Wal_append_entry_late:
  assumes "f_plan (wal_file wal) = [IoOk, IoLate err 0]" and "f_late (wal_file wal) = None"
  shows "\<exists>wal'. Wal_append_entry e wal = (Inr (), wal') \<and> f_plan (wal_file wal') = []
    \<and> f_late (wal_file wal') = Some err \<and> f_bytes (wal_file wal') = f_bytes (wal_file wal)"
  using assms by (simp add: Wal_append_entry_def wal_entry_bytes_def [symmetric] handler_defs Let_def)

lemma Wal_append_entry_pending:
  assumes "f_plan (wal_file wal) = []" and "f_late (wal_file wal) = Some err"
  shows "\<exists>wal'. Wal_append_entry e wal = (Inl (Err (Io (io_other (io_msg err)))), wal')
    \<and> f_bytes (wal_file wal') = f_bytes (wal_file wal)"
  using assms by (simp add: Wal_append_entry_def wal_entry_bytes_def [symmetric] handler_defs map_file_handler_error_def Let_def)

section \<open>Properties\<close>

text \<open>
  C2. What becomes of a \<open>set\<close> after any admissible history, whatever calls on the log then fail, at once
  or late, as long as a failing write transfers nothing. If it returns \<open>Ok\<close> the value is visible and the
  entry is logged; if it returns an error, an \<open>Other\<close> I/O error, memory is unchanged. A restart shows the
  new value exactly when the entry is among the log's entries and no failure of a write is pending: so an
  acknowledged \<open>set\<close> is durable unless its write failed late, and one that reported an error leaves no
  trace unless only its sync failed.
\<close>

theorem acknowledged_set_durable:
  assumes "byteorder X" and "length name \<le> 64" and "admissible_all (ops @ [OpSet k f]) empty_disk"
    and "list_all clean_outcome r"
  shows "\<exists>db res db1 db2. and_then (new_database X name) (run_ops X name ops) = Inr db
    \<and> Database_set k f (with_plans p q r db) = (res, db1) \<and> Database_restart X name db1 = Inr db2
    \<and> (if res = Inr ()
       then db_log db1 = db_log db @ [WalEntry.Set k f]
         \<and> (\<forall>l. Database_get l db1 = (if l = k then Inr f else Database_get l db))
       else (\<exists>msg. res = Inl (Err (Io (io_other msg)))) \<and> (\<forall>l. Database_get l db1 = Database_get l db)
         \<and> db_log db1 \<in> {db_log db, db_log db @ [WalEntry.Set k f]})
    \<and> (\<forall>l. Database_get l db2 = (if db_log db1 = db_log db \<or> late (wal_file (db_wal db1)) then Database_get l db
         else if l = k then Inr f else Database_get l db))"
proof -
  have adm: "admissible_all ops empty_disk" "storable_key k" "storable_field f"
    using assms(3) by (auto simp: admissible_all_append)
  obtain db0 where db0: "new_database X name = Inr db0" "tracks X (name_field name) db0 (\<lambda>_. None) empty_disk"
    using new_database_tracks [OF assms(2)] by blast
  obtain db ss where db: "run_ops X name ops db0 = Inr db" "db_clean X (name_field name) db ss"
    using run_all [OF assms(1,2) db0(2) adm(1)] by (auto simp: tracks_def)
  obtain res db1 where set: "Database_set k f (with_plans p q r db) = (res, db1)"
    "res = Inr () \<and> db_log db1 = db_log db @ [WalEntry.Set k f] \<and> db_fields db1 = (db_fields db)(k \<mapsto> f)
     \<or> (\<exists>msg. res = Inl (Err (Io (io_other msg)))) \<and> db_log db1 \<in> {db_log db, db_log db @ [WalEntry.Set k f]}
       \<and> db_fields db1 = db_fields db"
    "recoverable X (name_field name)
      (if db_log db1 = db_log db \<or> late (wal_file (db_wal db1)) then db_fields db else (db_fields db)(k \<mapsto> f))
      (db_file db1) (db_index_file db1) (wal_file (db_wal db1))"
    using Database_set_clean [OF db(2) adm(2,3) assms(4)] by blast
  obtain db2 where "Database_restart X name db1 = Inr db2"
    "db_fields db2 = (if db_log db1 = db_log db \<or> late (wal_file (db_wal db1)) then db_fields db else (db_fields db)(k \<mapsto> f))"
    using recoverable_restart [OF assms(1,2) set(3)] by blast
  then show ?thesis
    using db0(1) db(1) set(1,2) by (intro exI [of _ db] exI [of _ res] exI [of _ db1] exI [of _ db2])
      (auto simp: Database_get_def)
qed

theorem acknowledged_set_durable_witness:
  "\<exists>db res db1 db2. and_then (new_database (documented_crates (\<lambda>_. 7)) (ascii ''peach''))
      (run_ops (documented_crates (\<lambda>_. 7)) (ascii ''peach'') [OpSet (Key [107]) (Field.Raw [1])]) = Inr db
    \<and> Database_set (Key [107]) (Field.Raw [2]) (with_plans [] [] [IoOk, IoOk, IoFail (io_other (ascii ''no space'')) 0] db) = (res, db1)
    \<and> Database_restart (documented_crates (\<lambda>_. 7)) (ascii ''peach'') db1 = Inr db2"
proof -
  have "admissible_all ([OpSet (Key [107]) (Field.Raw [1])] @ [OpSet (Key [107]) (Field.Raw [2])]) empty_disk"
    by (simp add: admissible_eval)
  from acknowledged_set_durable [OF documented.byteorder_axioms [of "\<lambda>_. 7"] _ this,
      of "ascii ''peach''" "[IoOk, IoOk, IoFail (io_other (ascii ''no space'')) 0]" "[]" "[]"]
  show ?thesis by auto
qed

text \<open>
  C3. After any admissible history (lengths that fit, no empty key, room in the file) and for a log in
  which no deleted key has two records in the data file, a flush loses nothing, however its calls on the
  data, index and log files fail, at once or late, as long as a failing write to the data or index file
  transfers nothing: after a restart every key has the value it had before the flush.
\<close>

theorem flush_crash_safe:
  assumes "byteorder X" and "length name \<le> 64" and "admissible_all (ops @ [OpFlush ord]) empty_disk"
    and "list_all clean_outcome p" and "list_all clean_outcome q"
  shows "\<exists>db db'. and_then (new_database X name) (run_ops X name ops) = Inr db
    \<and> Database_restart X name (snd (Database_flush X ord (with_plans p q r db))) = Inr db'
    \<and> (\<forall>k. Database_get k db' = Database_get k db)"
proof -
  have adm: "admissible_all ops empty_disk" "admissible (OpFlush ord) (fold op_disk ops empty_disk)"
    using assms(3) by (auto simp: admissible_all_append)
  obtain db0 where db0: "new_database X name = Inr db0" "tracks X (name_field name) db0 (\<lambda>_. None) empty_disk"
    using new_database_tracks [OF assms(2)] by blast
  obtain db where db: "run_ops X name ops db0 = Inr db"
    "tracks X (name_field name) db (fold op_map ops (\<lambda>_. None)) (fold op_disk ops empty_disk)"
    using run_all [OF assms(1,2) db0(2) adm(1)] by blast
  then obtain ss where ss: "db_clean X (name_field name) db ss" "db_log db = pending (fold op_disk ops empty_disk)"
    "\<forall>k. length (live_values ss k) = versions (fold op_disk ops empty_disk) k"
    by (auto simp: tracks_def)
  have single: "length (live_values ss k) \<le> 1" if "logged (db_log db) k = Some None" for k
    by (rule admissible_flush_single [OF adm(2)]) (use that ss in simp_all)
  have ord: "hash_order ord" using adm(2) by simp
  obtain res db1 where db1: "Database_flush X ord (with_plans p q r db) = (res, db1)"
    "recoverable X (name_field name) (db_fields db) (db_file db1) (db_index_file db1) (wal_file (db_wal db1))"
    using Database_flush_any [OF ss(1) ord single assms(4,5)] by blast
  obtain db' where "Database_restart X name db1 = Inr db'" "db_fields db' = db_fields db"
    using recoverable_restart [OF assms(1,2) db1(2)] by blast
  then show ?thesis using db0(1) db(1) db1(1) by (auto simp: Database_get_def)
qed

theorem flush_crash_safe_witness:
  "\<exists>db db'. and_then (new_database (documented_crates (\<lambda>_. 7)) (ascii ''peach''))
      (run_ops (documented_crates (\<lambda>_. 7)) (ascii ''peach'')
        [OpSet (Key [107]) (Field.Raw [1]), OpFlush rev, OpDelete (Key [107]), OpSet (Key [108]) (Field.Raw [2])]) = Inr db
    \<and> Database_restart (documented_crates (\<lambda>_. 7)) (ascii ''peach'') (snd (Database_flush (documented_crates (\<lambda>_. 7)) sort
        (with_plans [IoOk, IoOk, IoFail (io_other (ascii ''no space'')) 0] [] [] db))) = Inr db'
    \<and> (\<forall>k. Database_get k db' = Database_get k db)"
  by (rule flush_crash_safe [OF documented.byteorder_axioms])
    (simp_all add: admissible_eval)

text \<open>
  C29. A write that fails half-way is another matter: when the flush's append of a record fails after
  some of its bytes, at once or late, \<open>flush\<close> reports the error, and the database cannot be opened again,
  because decoding its data file meets the end of the file inside the record.
\<close>

theorem torn_flush_blocks_restart:
  assumes "byteorder X" and "length name \<le> 64" and "hash_order ord"
    and "admissible_all (ops @ [OpSet k f]) empty_disk" and "pending (fold op_disk ops empty_disk) = []"
    and "0 < n" and "n < length (encode X k f)" and "out = IoFail err n \<or> out = IoLate err n"
  shows "\<exists>db. and_then (new_database X name) (run_ops X name (ops @ [OpSet k f])) = Inr db
    \<and> fst (Database_flush X ord (with_plans [IoOk, out] q r db)) = Inl (Err (Io (io_other (io_msg err))))
    \<and> Database_restart X name (snd (Database_flush X ord (with_plans [IoOk, out] q r db)))
        = Inl (Err (Io eof_error))"
proof -
  obtain db0 where db0: "new_database X name = Inr db0" "tracks X (name_field name) db0 (\<lambda>_. None) empty_disk"
    using new_database_tracks [OF assms(2)] by blast
  obtain db ss where db: "run_ops X name (ops @ [OpSet k f]) db0 = Inr db" "db_clean X (name_field name) db ss"
    "db_log db = [WalEntry.Set k f]"
    using run_all [OF assms(1,2) db0(2) assms(4)] assms(5) by (auto simp: tracks_def)
  have rep: "db_rep X (name_field name) db ss" using db(2) by (simp add: db_clean_def)
  note D = db_repD [OF rep]
  obtain rc where fb: "f_bytes (db_file db) = header_bytes rc (name_field name) @ slots_bytes X ss" using D(6) by blast
  let ?db = "with_plans [IoOk, out] q r db"
  have torn: "f_bytes (db_file ?db) @ take n (encode X k f)
      = header_bytes rc (name_field name) @ slots_bytes X ss @ take n (slot_bytes X (Live k f))"
    using fb by (simp add: encode_eq)
  have "f_late (db_file db) = None" using D(1) by (simp add: handler_seekable_def handler_ready_def)
  from Database_flush_torn [OF assms(3) db(3) this assms(8), where X = X] obtain db' where
    run: "Database_flush X ord ?db = (Inl (Err (map_file_handler_error err)), db')"
      "f_bytes (db_file db') = f_bytes (db_file ?db) @ take n (encode X k f)"
      "db_wal db' = db_wal ?db" "db_index_file db' = db_index_file ?db" by auto
  obtain w where w: "Wal_open X (Inr (reopened (wal_file (db_wal ?db)))) = Inr w"
    using byteorder.decode_wal_bytes [OF assms(1), of "db_log db"] D(4) by (auto simp: Wal_open_decode wal_inv_def)
  have st: "\<forall>s \<in> set (ss @ [Live k f]). storable_slot s"
    using D(4,7) db(3) by (auto simp: wal_inv_def)
  have "Database_restart X name db' = Inl (Err (Io eof_error))"
    using Database_open_torn [OF assms(1,2) D(5) run(2) [unfolded torn] st assms(6) _ w] assms(7) run(3,4)
    by (simp add: Database_restart_def encode_eq)
  then show ?thesis
    using db0(1) db(1) run by (simp add: map_file_handler_error_def)
qed

theorem torn_flush_blocks_restart_witness:
  "\<exists>db. and_then (new_database (documented_crates (\<lambda>_. 7)) (ascii ''peach''))
      (run_ops (documented_crates (\<lambda>_. 7)) (ascii ''peach'') ([] @ [OpSet (Key [107]) (Field.Raw [1])])) = Inr db
    \<and> Database_restart (documented_crates (\<lambda>_. 7)) (ascii ''peach'') (snd (Database_flush (documented_crates (\<lambda>_. 7)) rev
        (with_plans [IoOk, IoLate (io_other (ascii ''no space'')) 5] [] [] db))) = Inl (Err (Io eof_error))"
  using torn_flush_blocks_restart [OF documented.byteorder_axioms [of "\<lambda>_. 7"], of "ascii ''peach''" rev "[]"
      "Key [107]" "Field.Raw [1]" 5 "IoLate (io_other (ascii ''no space'')) 5" "io_other (ascii ''no space'')" "[]" "[]"]
  by (auto simp: admissible_eval encode_eq length_record_bytes)

text \<open>
  C30. A \<open>set\<close> can be acknowledged and lost without a crash: when the write of its log entry fails
  late, \<open>set\<close> returns \<open>Ok\<close> and the value is visible, but no file holds it and it is gone after a restart.
  The error is reported to the next \<open>set\<close> or \<open>delete\<close>, which writes nothing and leaves memory unchanged,
  although nothing was wrong with it.
\<close>

theorem unreported_write_failure_loses_set:
  assumes "byteorder X" and "length name \<le> 64" and "admissible_all (ops @ [OpSet k f]) empty_disk"
  shows "\<exists>db db1 db2. and_then (new_database X name) (run_ops X name ops) = Inr db
    \<and> Database_set k f (with_plans p q [IoOk, IoLate err 0] db) = (Inr (), db1)
    \<and> Database_get k db1 = Inr f
    \<and> Database_restart X name db1 = Inr db2 \<and> (\<forall>l. Database_get l db2 = Database_get l db)
    \<and> (\<forall>l g. \<exists>db3. Database_set l g db1 = (Inl (Err (Io (io_other (io_msg err)))), db3)
         \<and> f_bytes (wal_file (db_wal db3)) = f_bytes (wal_file (db_wal db))
         \<and> (\<forall>m. Database_get m db3 = Database_get m db1))
    \<and> (\<forall>l. \<exists>db3. Database_delete l db1 = (Inl (Err (Io (io_other (io_msg err)))), db3)
         \<and> f_bytes (wal_file (db_wal db3)) = f_bytes (wal_file (db_wal db))
         \<and> (\<forall>m. Database_get m db3 = Database_get m db1))"
proof -
  have adm: "admissible_all ops empty_disk" using assms(3) by (auto simp: admissible_all_append)
  obtain db0 where db0: "new_database X name = Inr db0" "tracks X (name_field name) db0 (\<lambda>_. None) empty_disk"
    using new_database_tracks [OF assms(2)] by blast
  obtain db ss where db: "run_ops X name ops db0 = Inr db" "db_clean X (name_field name) db ss"
    using run_all [OF assms(1,2) db0(2) adm] by (auto simp: tracks_def)
  have rep: "db_rep X (name_field name) db ss" using db(2) by (simp add: db_clean_def)
  let ?db = "with_plans p q [IoOk, IoLate err 0] db"
  have "f_plan (wal_file (db_wal ?db)) = [IoOk, IoLate err 0]" "f_late (wal_file (db_wal ?db)) = None"
    using db_repD(3) [OF rep] by (simp_all add: with_plans_def wal_ready_def handler_ready_def)
  from Wal_append_entry_late [OF this, of "WalEntry.Set k f"] obtain w where
    w: "Wal_append_entry (WalEntry.Set k f) (db_wal ?db) = (Inr (), w)"
      "f_plan (wal_file w) = []" "f_late (wal_file w) = Some err"
      "f_bytes (wal_file w) = f_bytes (wal_file (db_wal ?db))" by blast
  let ?db1 = "update_fields (hm_insert k f) (?db\<lparr>db_wal := w\<rparr>)"
  have set: "Database_set k f ?db = (Inr (), ?db1)" using w(1) by (simp add: Database_set_def)
  have get: "Database_get k ?db1 = Inr f" by (simp add: Database_get_def update_fields_def)
  have "recoverable X (name_field name) (db_fields db) (db_file ?db1) (db_index_file ?db1) (wal_file (db_wal ?db1))"
    using w(4) by (intro recoverable_cong [OF recoverable_clean [OF db(2)]]) (simp_all add: update_fields_def)
  from recoverable_restart [OF assms(1,2) this] obtain db2 where
    db2: "Database_restart X name ?db1 = Inr db2" "db_fields db2 = db_fields db" by blast
  have next_entry: "\<exists>w'. Wal_append_entry e w = (Inl (Err (Io (io_other (io_msg err)))), w')
      \<and> f_bytes (wal_file w') = f_bytes (wal_file (db_wal db))" for e
    using Wal_append_entry_pending [OF w(2,3), of e] w(4) by simp
  have next_set: "\<exists>db3. Database_set l g ?db1 = (Inl (Err (Io (io_other (io_msg err)))), db3)
      \<and> f_bytes (wal_file (db_wal db3)) = f_bytes (wal_file (db_wal db))
      \<and> (\<forall>m. Database_get m db3 = Database_get m ?db1)" for l g
    using next_entry [of "WalEntry.Set l g"] by (auto simp: Database_set_def Database_get_def update_fields_def)
  have next_delete: "\<exists>db3. Database_delete l ?db1 = (Inl (Err (Io (io_other (io_msg err)))), db3)
      \<and> f_bytes (wal_file (db_wal db3)) = f_bytes (wal_file (db_wal db))
      \<and> (\<forall>m. Database_get m db3 = Database_get m ?db1)" for l
    using next_entry [of "WalEntry.Delete l"] by (auto simp: Database_delete_def Database_get_def update_fields_def)
  have run: "and_then (new_database X name) (run_ops X name ops) = Inr db" using db0(1) db(1) by simp
  have same: "\<forall>l. Database_get l db2 = Database_get l db" using db2(2) by (simp add: Database_get_def)
  show ?thesis
    by (intro exI [of _ db] exI [of _ ?db1] exI [of _ db2] conjI run set get db2(1) same allI next_set next_delete)
qed

theorem unreported_write_failure_loses_set_witness:
  "\<exists>db db1 db2. and_then (new_database (documented_crates (\<lambda>_. 7)) (ascii ''peach''))
      (run_ops (documented_crates (\<lambda>_. 7)) (ascii ''peach'') [OpSet (Key [107]) (Field.Raw [1])]) = Inr db
    \<and> Database_set (Key [108]) (Field.Raw [2]) (with_plans [] [] [IoOk, IoLate (io_other (ascii ''no space'')) 0] db) = (Inr (), db1)
    \<and> Database_get (Key [108]) db1 = Inr (Field.Raw [2])
    \<and> Database_restart (documented_crates (\<lambda>_. 7)) (ascii ''peach'') db1 = Inr db2
    \<and> (\<forall>l. Database_get l db2 = Database_get l db)"
proof -
  have "admissible_all ([OpSet (Key [107]) (Field.Raw [1])] @ [OpSet (Key [108]) (Field.Raw [2])]) empty_disk"
    by (simp add: admissible_eval)
  from unreported_write_failure_loses_set [OF documented.byteorder_axioms [of "\<lambda>_. 7"] _ this,
      of "ascii ''peach''" "[]" "[]" "io_other (ascii ''no space'')"]
  show ?thesis by auto
qed

text \<open>
  C31. A log is replayed only when the data file is not empty. When the header of a new data file fails to
  be written and the failure comes late, \<open>open\<close> succeeds; a \<open>set\<close> is logged, synced, acknowledged and
  visible; but the next \<open>open\<close> takes the empty data file for a new database and starts with an empty map,
  although its log holds the entry.
\<close>

theorem unwritten_header_hides_log:
  assumes "byteorder X" and "length name \<le> 64" and "storable_key k" and "storable_field f"
  shows "\<exists>db db1 db2. fst (Database_open X name (Inr ((empty_file False)\<lparr>f_plan := [IoOk, IoOk, IoLate err 0]\<rparr>))
        (Inr (empty_file False)) (Inr (empty_file True))) = Inr db
    \<and> Database_set k f db = (Inr (), db1) \<and> Database_get k db1 = Inr f
    \<and> Database_restart X name db1 = Inr db2 \<and> Database_get k db2 = Inl (Err KeyNotFound)
    \<and> db_log db2 = [WalEntry.Set k f]"
proof -
  have header: "header_bytes 0 (name_field name) \<noteq> []" by (simp add: header_bytes_def)
  obtain w0 where w0: "Wal_open X (Inr (empty_file True)) = Inr w0" "wal_ready w0" "wal_inv w0" "wal_entries w0 = []"
    using Wal_open_inv [OF assms(1), of "\<lparr>wal_file = empty_file True, wal_entries = []\<rparr>"]
    by (auto simp: healed_def empty_file_def wal_inv_def)
  let ?fd = "(empty_file False)\<lparr>f_late := Some err\<rparr>"
  let ?db = "\<lparr>db_state = \<lparr>st_fields = hm_new, st_index = hm_new\<rparr>, db_wal = w0, db_file = ?fd,
    db_index_file = empty_file False\<rparr>"
  have open1: "fst (Database_open X name (Inr ((empty_file False)\<lparr>f_plan := [IoOk, IoOk, IoLate err 0]\<rparr>))
      (Inr (empty_file False)) (Inr (empty_file True))) = Inr ?db"
    using assms(2) w0(1) header
    by (simp add: Database_open_def is_new_file_def Database_new_def DBEncoder_header DBEncoder_finish_def
        DBEncoder_new_def empty_file_def file_defs Let_def FileHandler_spawn_def zero_extend_def)
  obtain w1 where w1: "Wal_append_entry (WalEntry.Set k f) w0 = (Inr (), w1)" "wal_ready w1"
    "wal_entries w1 = [WalEntry.Set k f]" "f_bytes (wal_file w1) = f_bytes (wal_file w0) @ wal_entry_bytes (WalEntry.Set k f)"
    using Wal_append_entry_ok [OF w0(2), of "WalEntry.Set k f"] w0(4) by auto
  have inv: "wal_inv w1" using w0(3,4) w1(3,4) assms(3,4) by (simp add: wal_inv_def)
  let ?db1 = "update_fields (hm_insert k f) (?db\<lparr>db_wal := w1\<rparr>)"
  have set: "Database_set k f ?db = (Inr (), ?db1)" using w1(1) by (simp add: Database_set_def)
  have get: "Database_get k ?db1 = Inr f" by (simp add: Database_get_def update_fields_def)
  obtain w2 where w2: "Wal_open X (Inr (reopened (wal_file w1))) = Inr w2" "wal_entries w2 = [WalEntry.Set k f]"
    using Wal_open_reopened [OF assms(1) inv] w1(3) by auto
  have "reopened ?fd = empty_file False" "reopened (empty_file False) = empty_file False"
    by (simp_all add: reopened_def empty_file_def)
  then have open2: "Database_restart X name ?db1 = Inr (fresh_database name w2)"
    using Database_open_new_ok [OF assms(2) w2(1)] by (simp add: Database_restart_def update_fields_def)
  have "Database_get k (fresh_database name w2) = Inl (Err KeyNotFound)" "db_log (fresh_database name w2) = [WalEntry.Set k f]"
    using w2(2) by (simp_all add: Database_get_def fresh_database_def)
  then show ?thesis using open1 set get open2 by blast
qed

theorem unwritten_header_hides_log_witness:
  "\<exists>db db1 db2. fst (Database_open (documented_crates (\<lambda>_. 7)) (ascii ''peach'')
        (Inr ((empty_file False)\<lparr>f_plan := [IoOk, IoOk, IoLate (io_other (ascii ''no space'')) 0]\<rparr>))
        (Inr (empty_file False)) (Inr (empty_file True))) = Inr db
    \<and> Database_set (Key [107]) (Field.Raw [1]) db = (Inr (), db1)
    \<and> Database_restart (documented_crates (\<lambda>_. 7)) (ascii ''peach'') db1 = Inr db2
    \<and> Database_get (Key [107]) db2 = Inl (Err KeyNotFound)"
proof -
  have "storable_key (Key [107])" "storable_field (Field.Raw [1])" "length (ascii ''peach'') \<le> 64"
    by (simp_all add: storable_key_def storable_field_def Key_len_def)
  from unwritten_header_hides_log [OF documented.byteorder_axioms [of "\<lambda>_. 7"] this(3,1,2)]
  show ?thesis by blast
qed

text \<open>
  C32. No operation checks the length of a key. A \<open>set\<close> with a key of \<open>2 ^ 16\<close> bytes succeeds and is
  visible, but its length wraps to 0 in the log, and the database cannot be opened again whenever the
  first bytes of the key, read as the length of the field, exceed what is left (as for any text key).
\<close>

theorem long_key_blocks_restart:
  assumes "byteorder X" and "length name \<le> 64" and "admissible_all ops empty_disk"
    and "Key_len k = 2 ^ 16"
    and "2 ^ 16 + length (bytes_from_field f) < unat (from_le_bytes (take 4 (Key_as_bytes k)) :: u32)"
  shows "\<exists>db db1. and_then (new_database X name) (run_ops X name ops) = Inr db
    \<and> Database_set k f db = (Inr (), db1) \<and> Database_get k db1 = Inr f
    \<and> Database_restart X name db1 = Inl (Err (Io eof_error))"
proof -
  obtain db0 where db0: "new_database X name = Inr db0" "tracks X (name_field name) db0 (\<lambda>_. None) empty_disk"
    using new_database_tracks [OF assms(2)] by blast
  obtain db ss where db: "run_ops X name ops db0 = Inr db" "db_rep X (name_field name) db ss"
    using run_all [OF assms(1,2) db0(2) assms(3)] by (auto simp: tracks_def db_clean_def)
  with Database_set_long_key [OF assms(1,2) db(2) assms(4,5)] db0(1) show ?thesis
    by (auto simp: Database_get_def)
qed

theorem long_key_blocks_restart_witness:
  "\<exists>k db db1. Key_len k = 2 ^ 16 \<and> and_then (new_database (documented_crates (\<lambda>_. 7)) (ascii ''peach''))
        (run_ops (documented_crates (\<lambda>_. 7)) (ascii ''peach'') []) = Inr db
    \<and> Database_set k (Field.Raw [1]) db = (Inr (), db1) \<and> Database_get k db1 = Inr (Field.Raw [1])
    \<and> Database_restart (documented_crates (\<lambda>_. 7)) (ascii ''peach'') db1 = Inl (Err (Io eof_error))"
proof -
  define k where "k = Key ([97, 97, 97, 97] @ replicate 65532 97)"
  have len: "Key_len k = 2 ^ 16" by (simp add: k_def Key_len_def)
  have "take 4 (Key_as_bytes k) = [97, 97, 97, 97]" by (simp add: k_def)
  then have "2 ^ 16 + length (bytes_from_field (Field.Raw [1])) < unat (from_le_bytes (take 4 (Key_as_bytes k)) :: u32)"
    by simp
  from long_key_blocks_restart [OF documented.byteorder_axioms [of "\<lambda>_. 7"] _ _ len this, of "ascii ''peach''" "[]"] len
  show ?thesis by auto
qed

end
