(* ===== verification/Flush_Race.thy ===== *)
theory Flush_Race
  imports Crash_Safety
begin

text \<open>
  A flush that is not alone. \<open>flush\<close> takes its entries under the log's mutex, gives the mutex up
  while it writes the data and index files, and takes it again for the checkpoint; \<open>flush_body\<close>
  is everything before that. What other tasks append to the log in between is in no file when
  the checkpoint truncates it.
\<close>

definition flush_body ::
    "third_party \<Rightarrow> (Key list \<Rightarrow> Key list) \<Rightarrow> Database \<Rightarrow> unit PDBResult \<times> Database" where
  "flush_body X ord db =
     (case Wal_pop_uncommited_entries (db_wal db) of
        Inl e \<Rightarrow> (Inl e, db)
      | Inr entries \<Rightarrow>
     (let net = net_entries entries;
          delete_plan = make_delete_plan ord net (st_index (db_state db))
      in case flush_entries X delete_plan (hm_into_values ord net) (db_file db) [] DBDeleter_new of
           (Inl e, file) \<Rightarrow> (Inl e, db\<lparr>db_file := file\<rparr>)
         | (Inr indexes, file) \<Rightarrow>
         case FileHandler_sync_all file of
           (Inl e, file) \<Rightarrow> (map_handler_result (Inl e), db\<lparr>db_file := file\<rparr>)
         | (Inr _, file) \<Rightarrow>
             (let db = db\<lparr>db_file := file,
                          db_state := commit_state ord indexes delete_plan (db_state db)\<rparr>
              in db_then Database_update_record_count (Database_rebuild_index ord) db)))"

lemma db_then_assoc: "db_then m (db_then g h) = db_then (db_then m g) h"
  by (simp add: db_then_def fun_eq_iff split: prod.split sum.split)

lemma Database_flush_split: "Database_flush X ord db = db_then (flush_body X ord) Database_checkpoint db"
  by (simp add: Database_flush_def flush_body_def db_then_def Let_def split: prod.split sum.split)

lemma flush_body_wal: "flush_body X ord db = (r, db1) \<Longrightarrow> db_wal db1 = db_wal db"
  by (auto simp: flush_body_def db_then_def Database_update_record_count_def Database_rebuild_index_def Let_def
      split: prod.splits sum.splits)

lemma flush_body_ok:
  assumes "Database_flush X ord db = (Inr (), db')"
  shows "\<exists>db1 wal. flush_body X ord db = (Inr (), db1) \<and> db_wal db1 = db_wal db \<and> db' = db1\<lparr>db_wal := wal\<rparr>"
proof -
  obtain r db1 where body: "flush_body X ord db = (r, db1)" by force
  then show ?thesis
    using assms flush_body_wal [OF body]
    by (cases r) (auto simp: Database_flush_split db_then_def Database_checkpoint_def split: prod.splits)
qed

text \<open>A \<open>set\<close> between the two: visible in memory, in no file.\<close>

lemma set_before_checkpoint:
  assumes rep: "db_rep X nm db ss" and ord: "hash_order ord"
  shows "\<exists>db1 db2 db3. flush_body X ord db = (Inr (), db1) \<and> Database_set k f db1 = (Inr (), db2)
    \<and> Database_checkpoint db2 = (Inr (), db3) \<and> db_fields db3 k = Some f \<and> db_log db3 = []
    \<and> db_rep X nm db3 (flushed_slots ord db ss)"
proof -
  obtain db' where db': "Database_flush X ord db = (Inr (), db')" "db_rep X nm db' (flushed_slots ord db ss)"
    using Database_flush_ok [OF rep ord] by blast
  obtain db1 wal where db1: "flush_body X ord db = (Inr (), db1)" "db_wal db1 = db_wal db" "db' = db1\<lparr>db_wal := wal\<rparr>"
    using flush_body_ok [OF db'(1)] by blast
  obtain w where w: "Wal_append_entry (WalEntry.Set k f) (db_wal db1) = (Inr (), w)" "wal_ready w"
    using Wal_append_entry_ok db_repD(3) [OF rep] db1(2) by metis
  obtain w' where w': "Wal_checkpoint w = (Inr (), w')" "wal_ready w'" "wal_entries w' = []" "f_bytes (wal_file w') = []"
    using Wal_checkpoint_ok [OF w(2)] by blast
  let ?db2 = "update_fields (hm_insert k f) (db1\<lparr>db_wal := w\<rparr>)" and ?db3 = "update_fields (hm_insert k f) (db'\<lparr>db_wal := w'\<rparr>)"
  have "db_rep X nm (db'\<lparr>db_wal := w'\<rparr>) (flushed_slots ord db ss)"
    using db'(2) w' by (simp add: db_rep_def log_size_def index_stored_def wal_inv_def)
  then have "db_rep X nm ?db3 (flushed_slots ord db ss)"
    using db_rep_update_fields [of X nm "db'\<lparr>db_wal := w'\<rparr>" _ "hm_insert k f"] db_repD(8) [OF db'(2)] by simp
  moreover have "Database_set k f db1 = (Inr (), ?db2)" using w(1) by (simp add: Database_set_def)
  moreover have "Database_checkpoint ?db2 = (Inr (), ?db3)"
    using w'(1) by (simp add: Database_checkpoint_def update_fields_def db1(3))
  ultimately show ?thesis
    using db1(1) w'(3) by (intro exI [of _ db1] exI [of _ ?db2] exI [of _ ?db3]) simp
qed

section \<open>Properties\<close>

text \<open>
  C37. A \<open>set\<close> of any key that another task completes after a flush has taken its entries and before
  the flush checkpoints the log is acknowledged and visible, but lost at the next restart: the database
  opens with the map from before the flush.
\<close>

theorem concurrent_set_lost_by_checkpoint:
  assumes "byteorder X" and "length name \<le> 64" and "admissible_all (ops @ [OpFlush ord]) empty_disk"
  shows "\<exists>db db1 db2 db3 db4. and_then (new_database X name) (run_ops X name ops) = Inr db
    \<and> flush_body X ord db = (Inr (), db1) \<and> Database_set k f db1 = (Inr (), db2)
    \<and> Database_checkpoint db2 = (Inr (), db3) \<and> Database_get k db3 = Inr f
    \<and> Database_restart X name db3 = Inr db4 \<and> db_fields db4 = fold op_map ops Map.empty"
proof -
  have adm: "admissible_all ops empty_disk" "admissible (OpFlush ord) (fold op_disk ops empty_disk)"
    using assms(3) by (simp_all add: admissible_all_append)
  obtain db0 where db0: "new_database X name = Inr db0" "tracks X (name_field name) db0 Map.empty empty_disk"
    using new_database_tracks [OF assms(2)] by blast
  obtain db ss where db: "run_ops X name ops db0 = Inr db" "db_clean X (name_field name) db ss"
    "db_fields db = fold op_map ops Map.empty" "db_log db = pending (fold op_disk ops empty_disk)"
    "\<forall>k. length (live_values ss k) = versions (fold op_disk ops empty_disk) k"
    using run_all [OF assms(1,2) db0(2) adm(1)] by (auto simp: tracks_def)
  have rep: "db_rep X (name_field name) db ss" and ord: "hash_order ord"
    using db(2) adm(2) by (simp_all add: db_clean_def)
  have single: "length (live_values ss k) \<le> 1" if "logged (db_log db) k = Some None" for k
    using admissible_flush_single [OF adm(2), of k "live_values ss k"] that db(4,5) by simp
  obtain db1 db2 db3 where run: "flush_body X ord db = (Inr (), db1)" "Database_set k f db1 = (Inr (), db2)"
    "Database_checkpoint db2 = (Inr (), db3)" "db_fields db3 k = Some f" "db_log db3 = []"
    "db_rep X (name_field name) db3 (flushed_slots ord db ss)"
    using set_before_checkpoint [OF rep ord] by blast
  have "\<forall>s \<in> set (flushed_slots ord db ss). rebuildable_slot s"
    by (rule flushed_slots_rebuildable [OF rep ord]) (use db(2) in \<open>simp_all add: db_clean_def\<close>)
  then obtain db4 where "Database_restart X name db3 = Inr db4" "db_fields db4 = replayed [] (flushed_slots ord db ss)"
    using Database_restart_ok [OF assms(1) run(6) assms(2)] run(5) by metis
  moreover have "replayed [] (flushed_slots ord db ss) = fold op_map ops Map.empty"
    using flush_clean(1) [OF db(2) ord single] db(3) by (simp add: replayed_Nil)
  moreover have "Database_get k db3 = Inr f" by (simp add: run(4) Database_get_def)
  moreover have "and_then (new_database X name) (run_ops X name ops) = Inr db" by (simp add: db0(1) db(1))
  ultimately show ?thesis using run(1-3) by metis
qed

theorem concurrent_set_lost_by_checkpoint_witness:
  "\<exists>db db1 db2 db3 db4. and_then (new_database (documented_crates (\<lambda>_. 7)) (ascii ''peach''))
        (run_ops (documented_crates (\<lambda>_. 7)) (ascii ''peach'') [OpSet (Key [107]) (Field.Raw [1])]) = Inr db
    \<and> flush_body (documented_crates (\<lambda>_. 7)) rev db = (Inr (), db1)
    \<and> Database_set (Key [107]) (Field.Raw [2]) db1 = (Inr (), db2) \<and> Database_checkpoint db2 = (Inr (), db3)
    \<and> Database_restart (documented_crates (\<lambda>_. 7)) (ascii ''peach'') db3 = Inr db4
    \<and> db_fields db4 (Key [107]) = Some (Field.Raw [1])"
proof -
  have "admissible_all ([OpSet (Key [107]) (Field.Raw [1])] @ [OpFlush rev]) empty_disk" by (simp add: admissible_eval)
  moreover have "length (ascii ''peach'') \<le> 64" by simp
  ultimately obtain db db1 db2 db3 db4 where "and_then (new_database (documented_crates (\<lambda>_. 7)) (ascii ''peach''))
        (run_ops (documented_crates (\<lambda>_. 7)) (ascii ''peach'') [OpSet (Key [107]) (Field.Raw [1])]) = Inr db"
    "flush_body (documented_crates (\<lambda>_. 7)) rev db = (Inr (), db1)"
    "Database_set (Key [107]) (Field.Raw [2]) db1 = (Inr (), db2)" "Database_checkpoint db2 = (Inr (), db3)"
    "Database_restart (documented_crates (\<lambda>_. 7)) (ascii ''peach'') db3 = Inr db4"
    "db_fields db4 = fold op_map [OpSet (Key [107]) (Field.Raw [1])] Map.empty"
    using concurrent_set_lost_by_checkpoint [OF documented.byteorder_axioms] by blast
  moreover from this(6) have "db_fields db4 (Key [107]) = Some (Field.Raw [1])" by simp
  ultimately show ?thesis by blast
qed

end
