(* ===== verification/File_Queue.thy ===== *)
theory File_Queue
  imports File_Handler
begin

text \<open>
  The channel of a \<open>FileHandler\<close> (\<^verbatim>\<open>src/db/file.rs\<close>): any number of clients send commands into a
  bounded queue, the one task that owns the file receives them in order, executes each to its end
  and sends the result through the command's one-shot channel. A client waits for its result before it
  goes on, as every method of \<open>FileHandler\<close> does, or is cancelled: then its command stays in the queue and
  is executed, and the result goes nowhere. Sends and receives do not fail: the task ends only when no
  client is left. The step relation leaves open which client sends next and when the task runs.

  A command is a seek and a read or write, or another call, on one shared file position. \<open>spec_cmd\<close> says
  what the commands mean on the content alone; the property is that clients interleaving in any way see
  that meaning.
\<close>

section \<open>The channel\<close>

definition CHANNEL_CAPACITY :: nat where "CHANNEL_CAPACITY = 32"

datatype 'r client = Idle | Awaiting | Replied 'r

record ('c, 'f, 'r) channel =
  ch_queue :: "(nat option \<times> 'c) list"
  ch_resource :: 'f
  ch_clients :: "nat \<Rightarrow> 'r client"

datatype ('c, 'r) chan_event = Send nat 'c | Serve "nat option" 'c 'r | Receive nat 'r | Cancel nat

definition fresh_channel :: "'f \<Rightarrow> ('c, 'f, 'r) channel" where
  "fresh_channel f = \<lparr>ch_queue = [], ch_resource = f, ch_clients = (\<lambda>_. Idle)\<rparr>"

text \<open>
  \<open>exec\<close> is what the task does with a command, for a file \<open>file_task\<close>. A command in the queue names the
  client that waits for it, if there is one.
\<close>

fun reply_to :: "nat option \<Rightarrow> 'r \<Rightarrow> (nat \<Rightarrow> 'r client) \<Rightarrow> nat \<Rightarrow> 'r client" where
  "reply_to None r clients = clients"
| "reply_to (Some i) r clients = clients(i := Replied r)"

definition orphan :: "nat \<Rightarrow> (nat option \<times> 'c) list \<Rightarrow> (nat option \<times> 'c) list" where
  "orphan i = map (\<lambda>(x, c). (if x = Some i then None else x, c))"

inductive channel_step ::
    "('c \<Rightarrow> 'f \<Rightarrow> 'r \<times> 'f) \<Rightarrow> ('c, 'f, 'r) channel \<Rightarrow> ('c, 'r) chan_event \<Rightarrow> ('c, 'f, 'r) channel \<Rightarrow> bool"
  for exec where
  send: "ch_clients s i = Idle \<Longrightarrow> length (ch_queue s) < CHANNEL_CAPACITY
    \<Longrightarrow> channel_step exec s (Send i cmd)
          (s\<lparr>ch_queue := ch_queue s @ [(Some i, cmd)], ch_clients := (ch_clients s)(i := Awaiting)\<rparr>)"
| serve: "ch_queue s = (x, cmd) # q \<Longrightarrow> exec cmd (ch_resource s) = (r, f)
    \<Longrightarrow> channel_step exec s (Serve x cmd r)
          (s\<lparr>ch_queue := q, ch_resource := f, ch_clients := reply_to x r (ch_clients s)\<rparr>)"
| receive: "ch_clients s i = Replied r
    \<Longrightarrow> channel_step exec s (Receive i r) (s\<lparr>ch_clients := (ch_clients s)(i := Idle)\<rparr>)"
| cancel: "ch_clients s i \<noteq> Idle
    \<Longrightarrow> channel_step exec s (Cancel i)
          (s\<lparr>ch_queue := orphan i (ch_queue s), ch_clients := (ch_clients s)(i := Idle)\<rparr>)"

inductive channel_run ::
    "('c \<Rightarrow> 'f \<Rightarrow> 'r \<times> 'f) \<Rightarrow> ('c, 'f, 'r) channel \<Rightarrow> ('c, 'r) chan_event list \<Rightarrow> ('c, 'f, 'r) channel \<Rightarrow> bool"
  for exec where
  chan_Nil: "channel_run exec s [] s"
| chan_snoc: "channel_run exec s evs s' \<Longrightarrow> channel_step exec s' ev s'' \<Longrightarrow> channel_run exec s (evs @ [ev]) s''"

lemma channel_run_Cons:
  assumes "channel_step exec s ev s'" and "channel_run exec s' evs s''"
  shows "channel_run exec s (ev # evs) s''"
  using assms(2,1)
proof (induction rule: channel_run.induct)
  case (chan_Nil s')
  then show ?case using chan_snoc [OF channel_run.chan_Nil] by fastforce
next
  case (chan_snoc s' evs t ev' t')
  then show ?case using channel_run.chan_snoc [of exec s "ev # evs" t ev' t'] by simp
qed

section \<open>Who waits\<close>

text \<open>A client waits exactly while the one command that names it is queued.\<close>

definition waiting :: "(nat option \<times> 'c) list \<Rightarrow> nat list" where
  "waiting q = List.map_filter fst q"

lemma waiting_simps [simp]:
  "waiting [] = []"
  "waiting ((None, c) # q) = waiting q"
  "waiting ((Some i, c) # q) = i # waiting q"
  "waiting (q @ q') = waiting q @ waiting q'"
  by (simp_all add: waiting_def List.map_filter_def)

lemma waiting_orphan [simp]: "waiting (orphan i q) = filter (\<lambda>j. j \<noteq> i) (waiting q)"
proof (induction q)
  case (Cons xc q)
  then show ?case by (cases xc; cases "fst xc") (auto simp: orphan_def)
qed (simp add: orphan_def)

definition channel_inv :: "('c, 'f, 'r) channel \<Rightarrow> bool" where
  "channel_inv s =
     (distinct (waiting (ch_queue s)) \<and> (\<forall>i. ch_clients s i = Awaiting \<longleftrightarrow> i \<in> set (waiting (ch_queue s))))"

lemma channel_inv_fresh: "channel_inv (fresh_channel f)"
  by (simp add: channel_inv_def fresh_channel_def)

lemma channel_step_inv:
  assumes "channel_step exec s ev s'" and "channel_inv s"
  shows "channel_inv s'"
  using assms
proof (induction rule: channel_step.induct)
  case (send s i cmd)
  then have "i \<notin> set (waiting (ch_queue s))" by (metis channel_inv_def client.distinct(1))
  with send show ?case by (auto simp: channel_inv_def)
next
  case (serve s x cmd q r f)
  then show ?case by (cases x) (auto simp: channel_inv_def)
next
  case (receive s i r)
  then have "i \<notin> set (waiting (ch_queue s))" by (metis channel_inv_def client.distinct(5))
  with receive show ?case by (auto simp: channel_inv_def)
next
  case (cancel s i)
  then show ?case by (auto simp: channel_inv_def)
qed

lemma channel_run_inv: "channel_run exec s evs s' \<Longrightarrow> channel_inv s \<Longrightarrow> channel_inv s'"
  by (induction rule: channel_run.induct) (auto intro: channel_step_inv)

section \<open>What the commands do\<close>

fun exec_all :: "('c \<Rightarrow> 'f \<Rightarrow> 'r \<times> 'f) \<Rightarrow> 'c list \<Rightarrow> 'f \<Rightarrow> 'r list \<times> 'f" where
  "exec_all exec [] f = ([], f)"
| "exec_all exec (c # cs) f =
     (case exec c f of (r, f) \<Rightarrow> (case exec_all exec cs f of (rs, f) \<Rightarrow> (r # rs, f)))"

lemma exec_all_snoc:
  "exec_all exec (cs @ [c]) f =
     (case exec_all exec cs f of (rs, f) \<Rightarrow> (case exec c f of (r, f) \<Rightarrow> (rs @ [r], f)))"
  by (induction cs arbitrary: f) (simp_all split: prod.split)

fun sent :: "('c, 'r) chan_event list \<Rightarrow> (nat \<times> 'c) list" where
  "sent [] = []"
| "sent (Send i cmd # evs) = (i, cmd) # sent evs"
| "sent (_ # evs) = sent evs"

fun served :: "('c, 'r) chan_event list \<Rightarrow> (nat option \<times> 'c \<times> 'r) list" where
  "served [] = []"
| "served (Serve x cmd r # evs) = (x, cmd, r) # served evs"
| "served (_ # evs) = served evs"

fun received :: "nat \<Rightarrow> ('c, 'r) chan_event list \<Rightarrow> 'r list" where
  "received i [] = []"
| "received i (Receive j r # evs) = (if i = j then r # received i evs else received i evs)"
| "received i (_ # evs) = received i evs"

text \<open>The results sent to a client.\<close>

definition replies :: "nat \<Rightarrow> ('c, 'r) chan_event list \<Rightarrow> 'r list" where
  "replies i evs = map (snd \<circ> snd) (filter (\<lambda>x. fst x = Some i) (served evs))"

lemma events_append:
  "sent (evs @ evs') = sent evs @ sent evs'"
  "served (evs @ evs') = served evs @ served evs'"
  "received i (evs @ evs') = received i evs @ received i evs'"
proof -
  show "sent (evs @ evs') = sent evs @ sent evs'" by (induction evs rule: sent.induct) simp_all
  show "served (evs @ evs') = served evs @ served evs'" by (induction evs rule: served.induct) simp_all
  show "received i (evs @ evs') = received i evs @ received i evs'"
    by (induction evs rule: received.induct [of _ i]) simp_all
qed

lemma orphan_commands [simp]: "map snd (orphan i q) = map snd q"
  by (simp add: orphan_def comp_def case_prod_unfold)

text \<open>What was sent is what was served, in order, and then what is queued.\<close>

lemma channel_run_fifo:
  "channel_run exec s evs s' \<Longrightarrow>
   map snd (ch_queue s) @ map snd (sent evs) = map (fst \<circ> snd) (served evs) @ map snd (ch_queue s')"
proof (induction rule: channel_run.induct)
  case (chan_snoc s evs s' ev s'')
  from chan_snoc.hyps(2) chan_snoc.IH show ?case
    by (induction rule: channel_step.induct) (simp_all add: events_append)
qed simp

lemma channel_run_exec:
  "channel_run exec s evs s' \<Longrightarrow>
   exec_all exec (map (fst \<circ> snd) (served evs)) (ch_resource s) = (map (snd \<circ> snd) (served evs), ch_resource s')"
proof (induction rule: channel_run.induct)
  case (chan_snoc s evs s' ev s'')
  from chan_snoc.hyps(2) chan_snoc.IH show ?case
    by (induction rule: channel_step.induct) (simp_all add: events_append exec_all_snoc)
qed simp

text \<open>The commands of a client that is never cancelled are served as its own, in its order.\<close>

lemma filter_orphan: "j \<noteq> i \<Longrightarrow> filter (\<lambda>x. fst x = Some i) (orphan j q) = filter (\<lambda>x. fst x = Some i) q"
  by (induction q) (auto simp: orphan_def split: if_split_asm)

lemma channel_run_own:
  "channel_run exec s evs s' \<Longrightarrow> Cancel i \<notin> set evs \<Longrightarrow>
   map snd (filter (\<lambda>x. fst x = Some i) (ch_queue s)) @ map snd (filter (\<lambda>x. fst x = i) (sent evs))
     = map (fst \<circ> snd) (filter (\<lambda>x. fst x = Some i) (served evs)) @ map snd (filter (\<lambda>x. fst x = Some i) (ch_queue s'))"
proof (induction rule: channel_run.induct)
  case (chan_snoc s evs s' ev s'')
  have IH: "map snd (filter (\<lambda>x. fst x = Some i) (ch_queue s)) @ map snd (filter (\<lambda>x. fst x = i) (sent evs))
     = map (fst \<circ> snd) (filter (\<lambda>x. fst x = Some i) (served evs)) @ map snd (filter (\<lambda>x. fst x = Some i) (ch_queue s'))"
    using chan_snoc.IH chan_snoc.prems by simp
  have "ev \<noteq> Cancel i" using chan_snoc.prems by auto
  with chan_snoc.hyps(2) IH show ?case
    by (induction rule: channel_step.induct) (auto simp: events_append filter_orphan)
qed simp

text \<open>It has received the results of its commands, except one that may be on its way.\<close>

lemma channel_run_replies:
  "channel_run exec s evs s' \<Longrightarrow> Cancel i \<notin> set evs \<Longrightarrow> ch_clients s i = Idle \<Longrightarrow> channel_inv s \<Longrightarrow>
   replies i evs = received i evs @ (case ch_clients s' i of Replied r \<Rightarrow> [r] | _ \<Rightarrow> [])"
proof (induction rule: channel_run.induct)
  case (chan_snoc s evs s' ev s'')
  have inv: "channel_inv s'" by (rule channel_run_inv [OF chan_snoc.hyps(1) chan_snoc.prems(3)])
  have IH: "replies i evs = received i evs @ (case ch_clients s' i of Replied r \<Rightarrow> [r] | _ \<Rightarrow> [])"
    using chan_snoc.IH chan_snoc.prems by simp
  have "ev \<noteq> Cancel i" using chan_snoc.prems(1) by auto
  with chan_snoc.hyps(2) inv IH show ?case
  proof (induction rule: channel_step.induct)
    case (serve s x cmd q r f)
    show ?case
    proof (cases x)
      case (Some j)
      then have "ch_clients s j = Awaiting" using serve by (auto simp: channel_inv_def)
      with serve Some show ?thesis by (auto simp: replies_def events_append)
    qed (use serve in \<open>auto simp: replies_def events_append\<close>)
  qed (auto simp: replies_def events_append split: client.splits)
qed (simp add: replies_def)

section \<open>A task whose resource has a meaning\<close>

text \<open>
  What every command keeps true of the resource holds in every state of every run; and if it also acts on
  an abstraction of the resource as \<open>spec\<close> says, then so does every sequence of commands.
\<close>

locale owned_resource =
  fixes exec :: "'c \<Rightarrow> 'f \<Rightarrow> 'r \<times> 'f"
    and good :: "'f \<Rightarrow> bool"
    and abs :: "'f \<Rightarrow> 'a"
    and spec :: "'c \<Rightarrow> 'a \<Rightarrow> 'r \<times> 'a"
  assumes exec_spec: "good f \<Longrightarrow> \<exists>r f'. exec cmd f = (r, f') \<and> good f' \<and> spec cmd (abs f) = (r, abs f')"
begin

lemma exec_all_spec:
  "good f \<Longrightarrow> \<exists>rs f'. exec_all exec cmds f = (rs, f') \<and> good f' \<and> exec_all spec cmds (abs f) = (rs, abs f')"
proof (induction cmds arbitrary: f)
  case (Cons cmd cmds)
  obtain r f1 where f1: "exec cmd f = (r, f1)" "good f1" "spec cmd (abs f) = (r, abs f1)"
    using exec_spec [OF Cons.prems] by blast
  with Cons.IH [OF f1(2)] show ?case by auto
qed simp

lemma run_spec:
  assumes "channel_run exec s evs s'" and "good (ch_resource s)"
  shows "good (ch_resource s')
    \<and> exec_all spec (map (fst \<circ> snd) (served evs)) (abs (ch_resource s)) = (map (snd \<circ> snd) (served evs), abs (ch_resource s'))"
  using channel_run_exec [OF assms(1)] exec_all_spec [OF assms(2), of "map (fst \<circ> snd) (served evs)"] by auto

end

text \<open>The commands on the content of a file.\<close>

fun spec_cmd :: "FileCmd \<Rightarrow> bytes \<Rightarrow> (io_error + FileReply) \<times> bytes" where
  "spec_cmd ReadAll c = (Inr (ReplyBytes c), c)"
| "spec_cmd (WriteAt pos data) c =
     (Inr ReplyUnit, if data = [] then c else splice (unat pos) data (zero_extend (unat pos) c))"
| "spec_cmd (Append data) c = (Inr (ReplyPos (of_nat (length c))), c @ data)"
| "spec_cmd (SetLen n) c = (Inr ReplyUnit, take (unat n) (zero_extend (unat n) c))"
| "spec_cmd SyncAll c = (Inr ReplyUnit, c)"

interpretation shared_file: owned_resource file_task handler_seekable f_bytes spec_cmd
proof (unfold_locales, goal_cases)
  case (1 f cmd)
  then show ?case
    by (cases cmd) (auto simp: handler_seekable_def handler_ready_def file_defs write_bytes_def splice_end zero_extend_def Let_def)
qed

section \<open>Properties\<close>

text \<open>
  C8. The clients of a handler share a file as if each command were one atomic operation on its content:
  however they interleave and whichever of them are cancelled, the commands take effect in the order they
  were sent, with the results and the content that \<open>spec_cmd\<close> gives (an append reports the offset of its
  own data, a read sees the whole content, whatever the position the command before left); and a
  client that is not cancelled gets the results of its own commands in its order. The file is one that
  was not opened for appending and on which no call fails.
\<close>

theorem file_handler_linearizable:
  assumes "channel_run file_task (fresh_channel f) evs s" and "handler_seekable f"
  shows "map snd (sent evs) = map (fst \<circ> snd) (served evs) @ map snd (ch_queue s)
    \<and> exec_all spec_cmd (map (fst \<circ> snd) (served evs)) (f_bytes f)
        = (map (snd \<circ> snd) (served evs), f_bytes (ch_resource s))
    \<and> (\<forall>i. Cancel i \<notin> set evs \<longrightarrow>
         map snd (filter (\<lambda>x. fst x = i) (sent evs))
           = map (fst \<circ> snd) (filter (\<lambda>x. fst x = Some i) (served evs)) @ map snd (filter (\<lambda>x. fst x = Some i) (ch_queue s))
         \<and> map (snd \<circ> snd) (filter (\<lambda>x. fst x = Some i) (served evs))
           = received i evs @ (case ch_clients s i of Replied r \<Rightarrow> [r] | _ \<Rightarrow> []))"
  using channel_run_fifo [OF assms(1)] shared_file.run_spec [OF assms(1)] assms(2)
    channel_run_own [OF assms(1)] channel_run_replies [OF assms(1) _ _ channel_inv_fresh]
  by (simp add: fresh_channel_def replies_def)

text \<open>
  Two clients and a cancelled one: the second appends at the end after the first has overwritten the
  start, and reads the content the three commands before leave.
\<close>

definition example_file :: "bytes \<Rightarrow> nat \<Rightarrow> File" where
  "example_file c pos = \<lparr>f_bytes = c, f_pos = pos, f_append = False, f_late = None, f_plan = []\<rparr>"

lemma example_commands:
  "file_task (WriteAt 0 [9]) (example_file [1, 2] 0) = (Inr ReplyUnit, example_file [9, 2] (Suc 0))"
  "file_task (Append [7]) (example_file [9, 2] (Suc 0)) = (Inr (ReplyPos 2), example_file [9, 2, 7] 3)"
  "file_task (Append [8]) (example_file [9, 2, 7] 3) = (Inr (ReplyPos 3), example_file [9, 2, 7, 8] 4)"
  "file_task ReadAll (example_file [9, 2, 7, 8] 4) = (Inr (ReplyBytes [9, 2, 7, 8]), example_file [9, 2, 7, 8] 4)"
  by (simp_all add: example_file_def file_defs write_bytes_def splice_def zero_extend_def)

lemmas start = fresh_channel_def CHANNEL_CAPACITY_def orphan_def

definition example_events :: "(FileCmd, io_error + FileReply) chan_event list" where
  "example_events =
     [Send 1 (WriteAt 0 [9]), Send 2 (Append [7]), Send 3 (Append [8]), Cancel 3,
      Serve (Some 1) (WriteAt 0 [9]) (Inr ReplyUnit), Serve (Some 2) (Append [7]) (Inr (ReplyPos 2)),
      Serve None (Append [8]) (Inr (ReplyPos 3)), Receive 2 (Inr (ReplyPos 2)),
      Send 2 ReadAll, Serve (Some 2) ReadAll (Inr (ReplyBytes [9, 2, 7, 8])),
      Receive 2 (Inr (ReplyBytes [9, 2, 7, 8]))]"

lemma example_run: "\<exists>s. channel_run file_task (fresh_channel (example_file [1, 2] 0)) example_events s"
  unfolding example_events_def
  apply (rule exI)
  apply (rule channel_run_Cons [OF send], simp add: start, simp add: start)
  apply (rule channel_run_Cons [OF send], simp add: start, simp add: start)
  apply (rule channel_run_Cons [OF send], simp add: start, simp add: start)
  apply (rule channel_run_Cons [OF cancel], simp add: start)
  apply (rule channel_run_Cons [OF serve], simp add: start, simp add: start example_commands del: file_task.simps)
  apply (rule channel_run_Cons [OF serve], simp add: start, simp add: start example_commands del: file_task.simps)
  apply (rule channel_run_Cons [OF serve], simp add: start, simp add: start example_commands del: file_task.simps)
  apply (rule channel_run_Cons [OF receive], simp add: start)
  apply (rule channel_run_Cons [OF send], simp add: start, simp add: start)
  apply (rule channel_run_Cons [OF serve], simp add: start, simp add: start example_commands del: file_task.simps)
  apply (rule channel_run_Cons [OF receive], simp add: start)
  apply (rule chan_Nil)
  done

theorem file_handler_linearizable_witness:
  "\<exists>s. channel_run file_task (fresh_channel (example_file [1, 2] 0)) example_events s
    \<and> f_bytes (ch_resource s) = [9, 2, 7, 8] \<and> received 2 example_events = [Inr (ReplyPos 2), Inr (ReplyBytes [9, 2, 7, 8])]"
proof -
  obtain s where run: "channel_run file_task (fresh_channel (example_file [1, 2] 0)) example_events s"
    using example_run by blast
  have "handler_seekable (example_file [1, 2] 0)" by (simp add: example_file_def handler_seekable_def handler_ready_def)
  from file_handler_linearizable [OF run this, THEN conjunct2, THEN conjunct1]
  have "f_bytes (ch_resource s) = [9, 2, 7, 8]"
    by (simp add: example_events_def example_file_def splice_def zero_extend_def)
  with run show ?thesis by (auto simp: example_events_def)
qed

end
