(* ===== verification/Protocol.thy ===== *)
theory Protocol
  imports Byte_Cursor
begin

text \<open>
  \<^verbatim>\<open>src/server/protocol.rs\<close>: the messages of the server and their encoding. A request is a
  version byte, a command byte and its arguments; a response is a status byte, a payload
  length and the payload; both travel in frames, a length and as many bytes. Numbers on the
  wire are big-endian. The encoder and decoder methods take their object last, as elsewhere;
  a decoding method returns its value with the decoder as it leaves it.
\<close>

section \<open>Messages\<close>

datatype Command = Ping | Get | Set | Del | Keys

definition Command_try_from :: "u8 \<Rightarrow> Command PDBResult" where
  "Command_try_from b =
     (if b = 0x01 then Inr Command.Ping
      else if b = 0x02 then Inr Command.Get
      else if b = 0x03 then Inr Command.Set
      else if b = 0x04 then Inr Command.Del
      else if b = 0x05 then Inr Command.Keys
      else Inl (Err (UnknownCommand b)))"

fun u8_from_Command :: "Command \<Rightarrow> u8" where
  "u8_from_Command Command.Ping = 0x01"
| "u8_from_Command Command.Get = 0x02"
| "u8_from_Command Command.Set = 0x03"
| "u8_from_Command Command.Del = 0x04"
| "u8_from_Command Command.Keys = 0x05"

datatype Request = Ping | Get Key | Set Key Field | Del Key | Keys

datatype Status = Ok | NotFound | TypeError | ServerError | InvalidRequest | Keys

definition Status_try_from :: "u8 \<Rightarrow> Status PDBResult" where
  "Status_try_from b =
     (if b = 0x00 then Inr Status.Ok
      else if b = 0x01 then Inr Status.NotFound
      else if b = 0x02 then Inr Status.TypeError
      else if b = 0x03 then Inr Status.ServerError
      else if b = 0x04 then Inr Status.InvalidRequest
      else if b = 0x05 then Inr Status.Keys
      else Inl (Err (UnknownCommand b)))"

fun u8_from_Status :: "Status \<Rightarrow> u8" where
  "u8_from_Status Status.Ok = 0x00"
| "u8_from_Status Status.NotFound = 0x01"
| "u8_from_Status Status.TypeError = 0x02"
| "u8_from_Status Status.ServerError = 0x03"
| "u8_from_Status Status.InvalidRequest = 0x04"
| "u8_from_Status Status.Keys = 0x05"

datatype Response =
    Ok "Field option"
  | NotFound
  | TypeError
  | ServerError rstring
  | InvalidRequest
  | Keys "Key list"

section \<open>ProtocolEncoder\<close>

record ProtocolEncoder =
  pe_buffer :: bytes

definition ProtocolEncoder_new :: ProtocolEncoder where
  "ProtocolEncoder_new = \<lparr>pe_buffer = []\<rparr>"

definition ProtocolEncoder_write :: "bytes \<Rightarrow> ProtocolEncoder \<Rightarrow> ProtocolEncoder" where
  "ProtocolEncoder_write bs e = e\<lparr>pe_buffer := pe_buffer e @ bs\<rparr>"

definition ProtocolEncoder_encode_u8 :: "u8 \<Rightarrow> ProtocolEncoder \<Rightarrow> ProtocolEncoder" where
  "ProtocolEncoder_encode_u8 val e = e\<lparr>pe_buffer := pe_buffer e @ [val]\<rparr>"

definition ProtocolEncoder_encode_u16_be :: "u16 \<Rightarrow> ProtocolEncoder \<Rightarrow> ProtocolEncoder" where
  "ProtocolEncoder_encode_u16_be val e = ProtocolEncoder_write (to_be_bytes 2 val) e"

definition ProtocolEncoder_encode_u32_be :: "u32 \<Rightarrow> ProtocolEncoder \<Rightarrow> ProtocolEncoder" where
  "ProtocolEncoder_encode_u32_be val e = ProtocolEncoder_write (to_be_bytes 4 val) e"

definition ProtocolEncoder_encode_key :: "Key \<Rightarrow> ProtocolEncoder \<Rightarrow> ProtocolEncoder" where
  "ProtocolEncoder_encode_key key e =
     ProtocolEncoder_write (Key_as_bytes key) (ProtocolEncoder_encode_u16_be (of_nat (Key_len key)) e)"

definition ProtocolEncoder_encode_field :: "Field \<Rightarrow> ProtocolEncoder \<Rightarrow> ProtocolEncoder" where
  "ProtocolEncoder_encode_field field e =
     (let bs = bytes_from_field field in
      ProtocolEncoder_write bs (ProtocolEncoder_encode_u32_be (of_nat (length bs)) e))"

definition ProtocolEncoder_encode_request :: "Request \<Rightarrow> ProtocolEncoder \<Rightarrow> ProtocolEncoder" where
  "ProtocolEncoder_encode_request req e =
     (let e = ProtocolEncoder_encode_u8 0x01 e in
      case req of
        Request.Ping \<Rightarrow> ProtocolEncoder_encode_u8 (u8_from_Command Command.Ping) e
      | Request.Keys \<Rightarrow> ProtocolEncoder_encode_u8 (u8_from_Command Command.Keys) e
      | Request.Get key \<Rightarrow>
          ProtocolEncoder_encode_key key (ProtocolEncoder_encode_u8 (u8_from_Command Command.Get) e)
      | Request.Del key \<Rightarrow>
          ProtocolEncoder_encode_key key (ProtocolEncoder_encode_u8 (u8_from_Command Command.Del) e)
      | Request.Set key field \<Rightarrow>
          ProtocolEncoder_encode_field field
            (ProtocolEncoder_encode_key key (ProtocolEncoder_encode_u8 (u8_from_Command Command.Set) e)))"

text \<open>The payload of a key list.\<close>

definition response_key_bytes :: "Key \<Rightarrow> bytes" where
  "response_key_bytes key = to_be_bytes 2 (of_nat (Key_len key) :: u16) @ Key_as_bytes key"

definition ProtocolEncoder_encode_response :: "Response \<Rightarrow> ProtocolEncoder \<Rightarrow> ProtocolEncoder" where
  "ProtocolEncoder_encode_response res e =
     (case res of
        Response.Ok maybe_field \<Rightarrow>
          (let e = ProtocolEncoder_encode_u8 (u8_from_Status Status.Ok) e in
           case maybe_field of
             None \<Rightarrow> ProtocolEncoder_encode_u32_be 0 e
           | Some field \<Rightarrow>
               (let bs = bytes_from_field field in
                ProtocolEncoder_write bs (ProtocolEncoder_encode_u32_be (of_nat (length bs)) e)))
      | Response.NotFound \<Rightarrow>
          ProtocolEncoder_encode_u32_be 0 (ProtocolEncoder_encode_u8 (u8_from_Status Status.NotFound) e)
      | Response.TypeError \<Rightarrow>
          ProtocolEncoder_encode_u32_be 0 (ProtocolEncoder_encode_u8 (u8_from_Status Status.TypeError) e)
      | Response.InvalidRequest \<Rightarrow>
          ProtocolEncoder_encode_u32_be 0
            (ProtocolEncoder_encode_u8 (u8_from_Status Status.InvalidRequest) e)
      | Response.ServerError msg \<Rightarrow>
          ProtocolEncoder_write msg
            (ProtocolEncoder_encode_u32_be (of_nat (length msg))
              (ProtocolEncoder_encode_u8 (u8_from_Status Status.ServerError) e))
      | Response.Keys keys \<Rightarrow>
          (let payload = fold (\<lambda>key payload. payload @ response_key_bytes key) keys [] in
           ProtocolEncoder_write payload
             (ProtocolEncoder_encode_u32_be (of_nat (length payload))
               (ProtocolEncoder_encode_u8 (u8_from_Status Status.Keys) e))))"

definition ProtocolEncoder_finish :: "ProtocolEncoder \<Rightarrow> bytes" where
  "ProtocolEncoder_finish e = pe_buffer e"

definition ProtocolEncoder_frame :: "ProtocolEncoder \<Rightarrow> bytes" where
  "ProtocolEncoder_frame e = to_be_bytes 4 (of_nat (length (pe_buffer e)) :: u32) @ pe_buffer e"

definition ProtocolEncoder_reset :: "ProtocolEncoder \<Rightarrow> ProtocolEncoder" where
  "ProtocolEncoder_reset e = e\<lparr>pe_buffer := []\<rparr>"

lemmas ProtocolEncoder_defs =
  ProtocolEncoder_new_def ProtocolEncoder_write_def ProtocolEncoder_encode_u8_def
  ProtocolEncoder_encode_u16_be_def ProtocolEncoder_encode_u32_be_def
  ProtocolEncoder_encode_key_def ProtocolEncoder_encode_field_def
  ProtocolEncoder_encode_request_def ProtocolEncoder_encode_response_def
  ProtocolEncoder_finish_def Let_def

section \<open>ProtocolDecoder\<close>

record ProtocolDecoder =
  pd_cursor :: cursor

definition ProtocolDecoder_new :: "bytes \<Rightarrow> ProtocolDecoder" where
  "ProtocolDecoder_new bs = \<lparr>pd_cursor = Cursor_new bs\<rparr>"

definition ProtocolDecoder_read_u8 :: "third_party \<Rightarrow> ProtocolDecoder \<Rightarrow> (u8 \<times> ProtocolDecoder) PDBResult" where
  "ProtocolDecoder_read_u8 X d =
     and_then (read_u8 X (pd_cursor d)) (\<lambda>(b, c). Inr (b, d\<lparr>pd_cursor := c\<rparr>))"

definition ProtocolDecoder_read_u16_be :: "third_party \<Rightarrow> ProtocolDecoder \<Rightarrow> (u16 \<times> ProtocolDecoder) PDBResult" where
  "ProtocolDecoder_read_u16_be X d =
     and_then (read_u16_be X (pd_cursor d)) (\<lambda>(n, c). Inr (n, d\<lparr>pd_cursor := c\<rparr>))"

definition ProtocolDecoder_read_u32_be :: "third_party \<Rightarrow> ProtocolDecoder \<Rightarrow> (u32 \<times> ProtocolDecoder) PDBResult" where
  "ProtocolDecoder_read_u32_be X d =
     and_then (read_u32_be X (pd_cursor d)) (\<lambda>(n, c). Inr (n, d\<lparr>pd_cursor := c\<rparr>))"

definition ProtocolDecoder_read_key :: "third_party \<Rightarrow> ProtocolDecoder \<Rightarrow> (Key \<times> ProtocolDecoder) PDBResult" where
  "ProtocolDecoder_read_key X d =
     and_then (ProtocolDecoder_read_u16_be X d) (\<lambda>(len, d).
     and_then (read_exact (unat len) (pd_cursor d)) (\<lambda>(buf, c).
     Inr (Key buf, d\<lparr>pd_cursor := c\<rparr>)))"

definition ProtocolDecoder_read_field :: "third_party \<Rightarrow> ProtocolDecoder \<Rightarrow> (Field \<times> ProtocolDecoder) PDBResult" where
  "ProtocolDecoder_read_field X d =
     and_then (ProtocolDecoder_read_u32_be X d) (\<lambda>(len, d).
     and_then (read_exact (unat len) (pd_cursor d)) (\<lambda>(buf, c).
     and_then (field_from_bytes buf) (\<lambda>(field, _).
     Inr (field, d\<lparr>pd_cursor := c\<rparr>))))"

definition ProtocolDecoder_decode_request ::
    "third_party \<Rightarrow> ProtocolDecoder \<Rightarrow> (Request \<times> ProtocolDecoder) PDBResult" where
  "ProtocolDecoder_decode_request X d =
     and_then (ProtocolDecoder_read_u8 X d) (\<lambda>(version, d).
       if version \<noteq> 0x01 then Inl (Err (InvalidRequestFormat (ascii ''invalid version'')))
       else
         and_then (ProtocolDecoder_read_u8 X d) (\<lambda>(b, d).
         and_then (Command_try_from b) (\<lambda>cmd.
         case cmd of
           Command.Ping \<Rightarrow> Inr (Request.Ping, d)
         | Command.Keys \<Rightarrow> Inr (Request.Keys, d)
         | Command.Get \<Rightarrow> and_then (ProtocolDecoder_read_key X d) (\<lambda>(key, d). Inr (Request.Get key, d))
         | Command.Del \<Rightarrow> and_then (ProtocolDecoder_read_key X d) (\<lambda>(key, d). Inr (Request.Del key, d))
         | Command.Set \<Rightarrow>
             and_then (ProtocolDecoder_read_key X d) (\<lambda>(key, d).
             and_then (ProtocolDecoder_read_field X d) (\<lambda>(field, d).
             Inr (Request.Set key field, d))))))"

text \<open>The loop over the payload of a key list: its cursor and the keys read.\<close>

definition response_key_step :: "third_party \<Rightarrow> cursor \<times> Key list \<Rightarrow> (cursor \<times> Key list) PDBResult" where
  "response_key_step X = (\<lambda>(c, keys).
     and_then (read_u16_be X c) (\<lambda>(key_len, c).
     and_then (read_exact (unat key_len) c) (\<lambda>(key_buf, c).
     Inr (c, keys @ [Key key_buf]))))"

lemma response_key_step_advances:
  "response_key_step X (c, ks) = Inr (c', ks') \<Longrightarrow> length (cur_rest c') < length (cur_rest c)"
  by (auto simp: response_key_step_def seq_iff dest!: read_int_InrD read_exact_InrD)

function response_keys :: "third_party \<Rightarrow> cursor \<times> Key list \<Rightarrow> (cursor \<times> Key list) PDBResult" where
  "response_keys X s =
     (if has_more (fst s) then and_then (response_key_step X s) (response_keys X) else Inr s)"
  by pat_completeness auto
termination
  by (relation "measure (\<lambda>(X, s). length (cur_rest (fst s)))")
    (auto simp: response_key_step_advances)

declare response_keys.simps [simp del]

definition ProtocolDecoder_decode_response ::
    "third_party \<Rightarrow> ProtocolDecoder \<Rightarrow> (Response \<times> ProtocolDecoder) PDBResult" where
  "ProtocolDecoder_decode_response X d =
     and_then (ProtocolDecoder_read_u8 X d) (\<lambda>(b, d).
     and_then (Status_try_from b) (\<lambda>status.
     and_then (ProtocolDecoder_read_u32_be X d) (\<lambda>(payload_len, d).
     and_then (read_exact (unat payload_len) (pd_cursor d)) (\<lambda>(payload, c).
     let d = d\<lparr>pd_cursor := c\<rparr> in
     case status of
       Status.Ok \<Rightarrow>
         (if payload = [] then Inr (Response.Ok None, d)
          else and_then (field_from_bytes payload) (\<lambda>(field, _). Inr (Response.Ok (Some field), d)))
     | Status.NotFound \<Rightarrow> Inr (Response.NotFound, d)
     | Status.TypeError \<Rightarrow> Inr (Response.TypeError, d)
     | Status.InvalidRequest \<Rightarrow> Inr (Response.InvalidRequest, d)
     | Status.ServerError \<Rightarrow>
         (case from_utf8 payload of
            Inl e \<Rightarrow> Inl (Err (InvalidRequestFormat (ascii ''invalid utf8 in error message: '' @ e)))
          | Inr msg \<Rightarrow> Inr (Response.ServerError msg, d))
     | Status.Keys \<Rightarrow>
         and_then (response_keys X (Cursor_new payload, [])) (\<lambda>(_, keys). Inr (Response.Keys keys, d))))))"

lemmas ProtocolDecoder_defs =
  ProtocolDecoder_new_def ProtocolDecoder_read_u8_def ProtocolDecoder_read_u16_be_def
  ProtocolDecoder_read_u32_be_def ProtocolDecoder_read_key_def ProtocolDecoder_read_field_def
  ProtocolDecoder_decode_request_def ProtocolDecoder_decode_response_def

section \<open>Messages as bytes\<close>

definition request_bytes :: "Request \<Rightarrow> bytes" where
  "request_bytes req = ProtocolEncoder_finish (ProtocolEncoder_encode_request req ProtocolEncoder_new)"

definition response_bytes :: "Response \<Rightarrow> bytes" where
  "response_bytes res = ProtocolEncoder_finish (ProtocolEncoder_encode_response res ProtocolEncoder_new)"

definition decode_request :: "third_party \<Rightarrow> bytes \<Rightarrow> Request PDBResult" where
  "decode_request X bs =
     and_then (ProtocolDecoder_decode_request X (ProtocolDecoder_new bs)) (\<lambda>(req, _). Inr req)"

definition decode_response :: "third_party \<Rightarrow> bytes \<Rightarrow> Response PDBResult" where
  "decode_response X bs =
     and_then (ProtocolDecoder_decode_response X (ProtocolDecoder_new bs)) (\<lambda>(res, _). Inr res)"

fun storable_request :: "Request \<Rightarrow> bool" where
  "storable_request (Request.Get k) = storable_key k"
| "storable_request (Request.Del k) = storable_key k"
| "storable_request (Request.Set k f) = (storable_key k \<and> storable_field f)"
| "storable_request _ = True"

definition keys_payload :: "Key list \<Rightarrow> bytes" where
  "keys_payload ks = concat (map response_key_bytes ks)"

fun storable_response :: "Response \<Rightarrow> bool" where
  "storable_response (Response.Ok (Some f)) = storable_field f"
| "storable_response (Response.ServerError msg) = (utf8_valid msg \<and> length msg < 2 ^ 32)"
| "storable_response (Response.Keys ks) = ((\<forall>k \<in> set ks. storable_key k) \<and> length (keys_payload ks) < 2 ^ 32)"
| "storable_response _ = True"

lemma request_bytes_simps:
  "request_bytes Request.Ping = [1, 1]"
  "request_bytes Request.Keys = [1, 5]"
  "request_bytes (Request.Get k) = 1 # 2 # response_key_bytes k"
  "request_bytes (Request.Del k) = 1 # 4 # response_key_bytes k"
  "request_bytes (Request.Set k f) = 1 # 3 # response_key_bytes k
     @ to_be_bytes 4 (of_nat (length (bytes_from_field f)) :: u32) @ bytes_from_field f"
  by (simp_all add: request_bytes_def ProtocolEncoder_defs response_key_bytes_def)

lemma fold_response_keys: "fold (\<lambda>key payload. payload @ response_key_bytes key) ks p = p @ keys_payload ks"
  by (induction ks arbitrary: p) (simp_all add: keys_payload_def)

lemma response_bytes_simps:
  "response_bytes (Response.Ok None) = 0 # to_be_bytes 4 (0 :: u32)"
  "response_bytes (Response.Ok (Some f)) = 0 # to_be_bytes 4 (of_nat (length (bytes_from_field f)) :: u32) @ bytes_from_field f"
  "response_bytes Response.NotFound = 1 # to_be_bytes 4 (0 :: u32)"
  "response_bytes Response.TypeError = 2 # to_be_bytes 4 (0 :: u32)"
  "response_bytes (Response.ServerError msg) = 3 # to_be_bytes 4 (of_nat (length msg) :: u32) @ msg"
  "response_bytes Response.InvalidRequest = 4 # to_be_bytes 4 (0 :: u32)"
  "response_bytes (Response.Keys ks) = 5 # to_be_bytes 4 (of_nat (length (keys_payload ks)) :: u32) @ keys_payload ks"
  by (simp_all add: response_bytes_def ProtocolEncoder_defs fold_response_keys)

lemma ProtocolDecoder_new_simps [simp]: "pd_cursor (ProtocolDecoder_new bs) = Cursor_new bs"
  by (simp add: ProtocolDecoder_new_def)

section \<open>Round trips\<close>

context byteorder
begin

lemma read_key_bytes:
  assumes "storable_key k" and "cur_rest (pd_cursor d) = response_key_bytes k @ ys"
  shows "ProtocolDecoder_read_key X d
    = Inr (k, d\<lparr>pd_cursor := advance (length (response_key_bytes k)) (pd_cursor d)\<rparr>)"
  using storable_key_len [OF assms(1)]
  by (simp add: ProtocolDecoder_defs read_simps assms(2) response_key_bytes_def)

lemma read_field_bytes:
  assumes "storable_field f"
    and "cur_rest (pd_cursor d) = to_be_bytes 4 (of_nat (length (bytes_from_field f)) :: u32) @ bytes_from_field f @ ys"
  shows "ProtocolDecoder_read_field X d
    = Inr (f, d\<lparr>pd_cursor := advance (4 + length (bytes_from_field f)) (pd_cursor d)\<rparr>)"
  using storable_field_len [OF assms(1)] storable_field_roundtrip [OF assms(1)]
  by (simp add: ProtocolDecoder_defs read_simps assms(2))

lemma decode_request_bytes:
  assumes "storable_request req"
  shows "decode_request X (request_bytes req @ rest) = Inr req"
proof (cases req)
  case (Set k f)
  let ?fs = "to_be_bytes 4 (of_nat (length (bytes_from_field f)) :: u32) @ bytes_from_field f @ rest"
  let ?d = "(ProtocolDecoder_new (request_bytes req @ rest))
    \<lparr>pd_cursor := advance 2 (Cursor_new (request_bytes req @ rest))\<rparr>"
  have st: "storable_key k" "storable_field f" using assms by (simp_all add: Set)
  have "cur_rest (pd_cursor ?d) = response_key_bytes k @ ?fs" by (simp add: Set request_bytes_simps)
  note key = read_key_bytes [OF st(1) this]
  let ?d2 = "?d\<lparr>pd_cursor := advance (length (response_key_bytes k)) (pd_cursor ?d)\<rparr>"
  have "cur_rest (pd_cursor ?d2) = ?fs" by (simp add: Set request_bytes_simps)
  note field = read_field_bytes [OF st(2) this]
  show ?thesis using key field
    by (simp add: numeral_2_eq_2 decode_request_def ProtocolDecoder_decode_request_def ProtocolDecoder_read_u8_def
        read_simps Set request_bytes_simps Command_try_from_def)
qed (use assms in \<open>simp_all add: decode_request_def ProtocolDecoder_decode_request_def
    ProtocolDecoder_read_u8_def read_simps request_bytes_simps Command_try_from_def read_key_bytes\<close>)

lemma response_key_step_bytes:
  assumes "storable_key k" and "cur_rest c = response_key_bytes k @ ys"
  shows "response_key_step X (c, ks) = Inr (advance (length (response_key_bytes k)) c, ks @ [k])"
  using storable_key_len [OF assms(1)]
  by (simp add: response_key_step_def read_simps assms(2) response_key_bytes_def)

end

sublocale byteorder \<subseteq> key_stream: entry_stream fst snd "response_key_step X" "response_keys X"
    response_key_bytes storable_key "\<lambda>p k ks. ks @ [k]"
proof (unfold_locales, goal_cases)
  case (1 k)
  show ?case by (simp add: response_key_bytes_def)
next
  case (2 k d ys)
  then show ?case by (cases d) (simp add: response_key_step_bytes)
next
  case (3 d)
  show ?case by (subst response_keys.simps) (rule refl)
qed

context byteorder
begin

lemma response_keys_bytes:
  assumes "\<forall>k \<in> set ks. storable_key k"
  shows "\<exists>c. response_keys X (Cursor_new (keys_payload ks), []) = Inr (c, ks)"
  using key_stream.loop_all [of ks "(Cursor_new (keys_payload ks), [])"] assms
  by (auto simp: keys_payload_def)

lemma decode_response_bytes:
  assumes "storable_response res"
  shows "decode_response X (response_bytes res @ rest) = Inr res"
proof (cases res)
  case (Ok maybe_field)
  then show ?thesis
    using assms storable_field_len storable_field_roundtrip
    by (cases maybe_field) (simp_all add: decode_response_def ProtocolDecoder_decode_response_def
        ProtocolDecoder_read_u8_def ProtocolDecoder_read_u32_be_def read_simps response_bytes_simps Status_try_from_def Let_def)
next
  case (ServerError msg)
  then show ?thesis
    using assms by (simp add: decode_response_def ProtocolDecoder_decode_response_def ProtocolDecoder_read_u8_def
        ProtocolDecoder_read_u32_be_def read_simps response_bytes_simps Status_try_from_def Let_def
        unat_of_nat_u32 from_utf8_valid)
next
  case (Keys ks)
  then obtain c where "response_keys X (Cursor_new (keys_payload ks), []) = Inr (c, ks)"
    using response_keys_bytes [of ks] assms by auto
  with Keys show ?thesis
    using assms by (simp add: decode_response_def ProtocolDecoder_decode_response_def ProtocolDecoder_read_u8_def
        ProtocolDecoder_read_u32_be_def read_simps response_bytes_simps Status_try_from_def Let_def unat_of_nat_u32)
qed (simp_all add: decode_response_def ProtocolDecoder_decode_response_def ProtocolDecoder_read_u8_def
        ProtocolDecoder_read_u32_be_def read_simps response_bytes_simps Status_try_from_def Let_def)

end

section \<open>What a decoder accepts\<close>

lemma read_key_storable:
  assumes "ProtocolDecoder_read_key X d = Inr (k, d')"
  shows "storable_key k"
proof -
  obtain len :: u16 and c buf c' where "read_exact (unat len) c = Inr (buf, c')" "k = Key buf"
    using assms by (auto simp: ProtocolDecoder_read_key_def ProtocolDecoder_read_u16_be_def seq_iff)
  then have "Key_len k = unat len" using read_exact_InrD [of "unat len" c buf c'] by (simp add: Key_len_def)
  then show ?thesis using unsigned_less [of len, where 'a = nat] by (simp add: storable_key_def)
qed

lemma read_field_storable:
  assumes "ProtocolDecoder_read_field X d = Inr (f, d')"
  shows "storable_field f"
proof -
  obtain len :: u32 and c buf c' n where r: "read_exact (unat len) c = Inr (buf, c')"
    and f: "field_from_bytes buf = Inr (f, n)"
    using assms by (auto simp: ProtocolDecoder_read_field_def ProtocolDecoder_read_u32_be_def seq_iff)
  have "length buf = unat len" using read_exact_InrD [OF r] by simp
  then have "length (bytes_from_field f) < 2 ^ 32"
    using field_from_bytes_wf [OF f] field_from_bytes_len [OF f] unsigned_less [of len, where 'a = nat] by simp
  then show ?thesis using field_from_bytes_wf [OF f] by (simp add: storable_field_def)
qed

lemma decode_request_storable:
  assumes "decode_request X bs = Inr req"
  shows "storable_request req"
proof -
  obtain d b d' cmd where "Command_try_from b = Inr cmd" and
    run: "(case cmd of
           Command.Ping \<Rightarrow> Inr (Request.Ping, d)
         | Command.Keys \<Rightarrow> Inr (Request.Keys, d)
         | Command.Get \<Rightarrow> and_then (ProtocolDecoder_read_key X d) (\<lambda>(key, d). Inr (Request.Get key, d))
         | Command.Del \<Rightarrow> and_then (ProtocolDecoder_read_key X d) (\<lambda>(key, d). Inr (Request.Del key, d))
         | Command.Set \<Rightarrow>
             and_then (ProtocolDecoder_read_key X d) (\<lambda>(key, d).
             and_then (ProtocolDecoder_read_field X d) (\<lambda>(field, d).
             Inr (Request.Set key field, d)))) = Inr (req, d')"
    using assms by (auto simp: decode_request_def ProtocolDecoder_decode_request_def seq_iff split: if_split_asm)
  show ?thesis
    using run by (cases cmd) (auto simp: seq_iff dest: read_key_storable read_field_storable)
qed


lemma be_1: "to_be_bytes 2 (1 :: u16) = [0, 1]" "to_be_bytes 4 (1 :: u32) = [0, 0, 0, 1]"
  by (simp_all add: to_be_bytes_def to_le_bytes_numeral)

section \<open>Incomplete requests\<close>

context byteorder
begin

lemma read_key_torn:
  assumes "storable_key k" and "response_key_bytes k = ys @ zs" and "zs \<noteq> []"
    and "cur_rest (pd_cursor d) = ys"
  shows "ProtocolDecoder_read_key X d = Inl (Err (Io eof_error))"
proof (cases "length ys < 2")
  case True
  then show ?thesis using assms(4) by (simp add: ProtocolDecoder_defs read_int_eof)
next
  case False
  define len :: u16 where "len = of_nat (Key_len k)"
  have enc: "to_be_bytes 2 len @ Key_as_bytes k = ys @ zs"
    using assms(2) by (simp add: response_key_bytes_def len_def)
  then have "take 2 ys = to_be_bytes 2 len" "Key_as_bytes k = drop 2 ys @ zs"
    using append_eq_long [OF enc] False by simp_all
  moreover have "unat len = length (Key_as_bytes k)"
    using storable_key_len [OF assms(1)] by (simp add: len_def)
  ultimately have "length (drop 2 ys) < unat len" using assms(3) by simp
  then show ?thesis
    using assms(4) False \<open>take 2 ys = to_be_bytes 2 len\<close>
    by (simp add: ProtocolDecoder_defs read_int_rest read_exact_eof)
qed

lemma read_field_torn:
  assumes "storable_field f" and "to_be_bytes 4 (of_nat (length (bytes_from_field f)) :: u32) @ bytes_from_field f = ys @ zs"
    and "zs \<noteq> []" and "cur_rest (pd_cursor d) = ys"
  shows "ProtocolDecoder_read_field X d = Inl (Err (Io eof_error))"
proof (cases "length ys < 4")
  case True
  then show ?thesis using assms(4) by (simp add: ProtocolDecoder_defs read_int_eof)
next
  case False
  define len :: u32 where "len = of_nat (length (bytes_from_field f))"
  have enc: "to_be_bytes 4 len @ bytes_from_field f = ys @ zs"
    using assms(2) by (simp add: len_def)
  then have "take 4 ys = to_be_bytes 4 len" "bytes_from_field f = drop 4 ys @ zs"
    using append_eq_long [OF enc] False by simp_all
  moreover have "unat len = length (bytes_from_field f)"
    using storable_field_len [OF assms(1)] by (simp add: len_def)
  ultimately have "length (drop 4 ys) < unat len" using assms(3) by simp
  then show ?thesis
    using assms(4) False \<open>take 4 ys = to_be_bytes 4 len\<close>
    by (simp add: ProtocolDecoder_defs read_int_rest read_exact_eof)
qed

lemma decode_request_short: "length ys < 2 \<Longrightarrow> (\<And>b. ys = [b] \<Longrightarrow> b = 1) \<Longrightarrow>
    decode_request X ys = Inl (Err (Io eof_error))"
  by (cases ys rule: list.exhaust [case_product list.exhaust])
    (auto simp: decode_request_def ProtocolDecoder_defs read_simps)

lemma decode_request_command:
  "decode_request X (1 # b # ys) =
     (let d = (ProtocolDecoder_new (1 # b # ys))\<lparr>pd_cursor := advance 2 (Cursor_new (1 # b # ys))\<rparr> in
      and_then (Command_try_from b) (\<lambda>cmd.
        and_then (case cmd of
           Command.Ping \<Rightarrow> Inr (Request.Ping, d)
         | Command.Keys \<Rightarrow> Inr (Request.Keys, d)
         | Command.Get \<Rightarrow> and_then (ProtocolDecoder_read_key X d) (\<lambda>(key, d). Inr (Request.Get key, d))
         | Command.Del \<Rightarrow> and_then (ProtocolDecoder_read_key X d) (\<lambda>(key, d). Inr (Request.Del key, d))
         | Command.Set \<Rightarrow>
             and_then (ProtocolDecoder_read_key X d) (\<lambda>(key, d).
             and_then (ProtocolDecoder_read_field X d) (\<lambda>(field, d).
             Inr (Request.Set key field, d)))) (\<lambda>(req, _). Inr req)))"
  by (simp add: decode_request_def ProtocolDecoder_decode_request_def ProtocolDecoder_read_u8_def read_simps
      and_then_assoc Let_def numeral_2_eq_2)

lemma decode_request_torn:
  assumes "storable_request req" and "request_bytes req = ys @ zs" and "zs \<noteq> []"
  shows "decode_request X ys = Inl (Err (Io eof_error))"
proof (cases "length ys < 2")
  case True
  have "hd (request_bytes req) = 1" by (cases req) (simp_all add: request_bytes_simps)
  then have "b = 1" if "ys = [b]" for b using assms(2) that by simp
  then show ?thesis using True by (intro decode_request_short) auto
next
  case False
  then obtain a b us where ys: "ys = a # b # us" by (cases ys; cases "tl ys") auto
  let ?d = "(ProtocolDecoder_new (1 # b # us))\<lparr>pd_cursor := advance 2 (Cursor_new (1 # b # us))\<rparr>"
  have rest: "cur_rest (pd_cursor ?d) = us" by (simp add: numeral_2_eq_2)
  show ?thesis
  proof (cases req)
    case (Set k f)
    let ?fs = "to_be_bytes 4 (of_nat (length (bytes_from_field f)) :: u32) @ bytes_from_field f"
    have st: "storable_key k" "storable_field f" using assms(1) Set by simp_all
    have enc: "a = 1" "b = 3" "response_key_bytes k @ ?fs = us @ zs"
      using assms(2) Set ys by (simp_all add: request_bytes_simps)
    consider vs where "vs \<noteq> []" "response_key_bytes k = us @ vs"
      | vs where "us = response_key_bytes k @ vs" "?fs = vs @ zs"
    proof (cases "length (response_key_bytes k) \<le> length us")
      case True
      then show ?thesis using that(2) [of "drop (length (response_key_bytes k)) us"] append_eq_long [OF enc(3) True]
        by (metis append_take_drop_id)
    next
      case False
      then have "us = take (length us) (response_key_bytes k)"
        using append_eq_long(1) [OF enc(3) [symmetric]] by simp
      then show ?thesis using that(1) [of "drop (length us) (response_key_bytes k)"] False
        by (metis append_take_drop_id drop_eq_Nil)
    qed
    then show ?thesis
    proof cases
      case 1
      show ?thesis
        using read_key_torn [OF st(1) 1(2,1) rest] enc(1,2) ys
        by (simp add: decode_request_command Command_try_from_def)
    next
      case 2
      note key = read_key_bytes [OF st(1) rest [unfolded 2(1)]]
      let ?d2 = "?d\<lparr>pd_cursor := advance (length (response_key_bytes k)) (pd_cursor ?d)\<rparr>"
      have "cur_rest (pd_cursor ?d2) = vs" using 2(1) by (simp add: numeral_2_eq_2)
      note field = read_field_torn [OF st(2) 2(2) assms(3) this]
      show ?thesis using key field enc(1,2) ys 2(1)
        by (simp add: decode_request_command Command_try_from_def)
    qed
  qed (use assms ys rest read_key_torn in
      \<open>auto simp: request_bytes_simps decode_request_command Command_try_from_def\<close>)
qed

lemma decode_request_malformed_field:
  assumes "storable_key k" and "length bs < 2 ^ 32" and "field_from_bytes bs = Inl e"
  shows "decode_request X (1 # 3 # response_key_bytes k @ to_be_bytes 4 (of_nat (length bs) :: u32) @ bs) = Inl e"
proof -
  let ?fs = "to_be_bytes 4 (of_nat (length bs) :: u32) @ bs"
  let ?bs = "1 # 3 # response_key_bytes k @ ?fs"
  let ?d = "(ProtocolDecoder_new ?bs)\<lparr>pd_cursor := advance 2 (Cursor_new ?bs)\<rparr>"
  have rest: "cur_rest (pd_cursor ?d) = response_key_bytes k @ ?fs" by (simp add: numeral_2_eq_2)
  show ?thesis
    using read_key_bytes [OF assms(1) rest] assms(2,3)
    by (simp add: decode_request_command Command_try_from_def ProtocolDecoder_read_field_def
        ProtocolDecoder_read_u32_be_def read_simps unat_of_nat_u32 numeral_2_eq_2)
qed

end

section \<open>Properties\<close>

text \<open>
  C24. A request whose key and value fit the length fields survives the wire: decoding what
  \<open>encode_request\<close> wrote gives the request back, whatever follows it in the buffer.
\<close>

theorem request_roundtrip:
  assumes "byteorder X" and "storable_request req"
  shows "decode_request X (request_bytes req @ rest) = Inr req"
  using byteorder.decode_request_bytes [OF assms] .

theorem request_roundtrip_witness:
  "decode_request (documented_crates (\<lambda>_. 7)) (request_bytes (Request.Set (Key [107]) (Field.Raw [1, 2])) @ [9])
    = Inr (Request.Set (Key [107]) (Field.Raw [1, 2]))"
  by (rule request_roundtrip [OF documented.byteorder_axioms])
    (simp add: storable_key_def storable_field_def Key_len_def)

text \<open>
  C25. A response survives the wire: decoding what \<open>encode_response\<close> wrote gives the response
  back, for every constructor, an empty answer, an error text and a key list included.
\<close>

theorem response_roundtrip:
  assumes "byteorder X" and "storable_response res"
  shows "decode_response X (response_bytes res @ rest) = Inr res"
  using byteorder.decode_response_bytes [OF assms] .

theorem response_roundtrip_witness:
  "decode_response (documented_crates (\<lambda>_. 7)) (response_bytes (Response.Keys [Key [107], Key []]) @ [])
    = Inr (Response.Keys [Key [107], Key []])"
  by (rule response_roundtrip [OF documented.byteorder_axioms])
    (simp add: storable_key_def Key_len_def keys_payload_def response_key_bytes_def)

text \<open>
  C27. Whatever bytes arrive, a request the decoder accepts has a key of less than \<open>2 ^ 16\<close> bytes
  and a well-formed value of less than \<open>2 ^ 32\<close>, so it can be logged, stored and sent again unchanged.
\<close>

theorem accepted_request_storable:
  assumes "decode_request X bs = Inr req"
  shows "storable_request req \<and> (byteorder X \<longrightarrow> decode_request X (request_bytes req) = Inr req)"
  using decode_request_storable [OF assms] byteorder.decode_request_bytes [of X req "[]"] by simp

theorem accepted_request_storable_witness:
  "storable_request (Request.Get (Key [107]))"
  using accepted_request_storable [of "documented_crates (\<lambda>_. 7)" "[1, 2, 0, 1, 107, 55]" "Request.Get (Key [107])"]
  by (simp add: decode_request_def ProtocolDecoder_defs read_simps Command_try_from_def documented_crates_def
      to_be_bytes_def from_be_bytes_def)

text \<open>
  C26. The three ways a request is refused: another version byte is an \<open>InvalidRequestFormat\<close>,
  an unknown command an \<open>UnknownCommand\<close> with that byte, and every proper prefix of a request an
  end-of-file error; none of them is taken for another request.
\<close>

theorem request_rejection:
  assumes "byteorder X" and "version \<noteq> 1" and "cmd \<notin> {1, 2, 3, 4, 5}"
    and "storable_request req" and "request_bytes req = ys @ zs" and "zs \<noteq> []"
  shows "decode_request X (version # rest) = Inl (Err (InvalidRequestFormat (ascii ''invalid version'')))
    \<and> decode_request X (1 # cmd # rest) = Inl (Err (UnknownCommand cmd))
    \<and> decode_request X ys = Inl (Err (Io eof_error))"
proof -
  have "decode_request X (version # rest) = Inl (Err (InvalidRequestFormat (ascii ''invalid version'')))"
    using assms(2) by (simp add: decode_request_def ProtocolDecoder_defs read_simps byteorder.bo_u8 [OF assms(1)])
  moreover have "decode_request X (1 # cmd # rest) = Inl (Err (UnknownCommand cmd))"
    using assms(3) by (simp add: byteorder.decode_request_command [OF assms(1)] Command_try_from_def Let_def)
  ultimately show ?thesis using byteorder.decode_request_torn [OF assms(1,4-6)] by simp
qed

theorem request_rejection_witness:
  "decode_request (documented_crates (\<lambda>_. 7)) [2, 1] = Inl (Err (InvalidRequestFormat (ascii ''invalid version'')))
    \<and> decode_request (documented_crates (\<lambda>_. 7)) [1, 9, 1] = Inl (Err (UnknownCommand 9))
    \<and> decode_request (documented_crates (\<lambda>_. 7)) [1, 2, 0] = Inl (Err (Io eof_error))"
  using request_rejection [OF documented.byteorder_axioms [of "\<lambda>_. 7"], of 2 9
      "Request.Get (Key [107])" "[1, 2, 0]" "[1, 107]" "[1]"]
  by (simp add: storable_key_def Key_len_def request_bytes_simps response_key_bytes_def be_1)


end
