(* ===== verification/Server.thy ===== *)
theory Server
  imports Protocol Durable_Store
begin

text \<open>
  \<^verbatim>\<open>src/server/server.rs\<close>: the TCP server. A connection is a stream with the bytes its peer
  sends before its side ends, the error or end of file that follows them, the bytes written back
  so far, and the outcomes of the writes to come: a failing write may have sent a part of its bytes and
  reports its own error, and writes succeed when the list is exhausted. \<open>connection_step\<close> is one
  iteration of the loop of \<open>handle_connection\<close>; the loop ends because every iteration that
  continues has read a length. Here a connection runs alone with the database; the theory
  \<open>Concurrent_Server\<close> lets the tasks of several connections interleave.
\<close>

section \<open>Streams\<close>

datatype tcp_outcome = SentAll | SentPart io_error nat

record TcpStream =
  ts_in :: bytes
  ts_end :: "io_error option"
  ts_out :: bytes
  ts_plan :: "tcp_outcome list"

definition early_eof :: io_error where
  "early_eof = \<lparr>io_kind = UnexpectedEof, io_msg = ascii ''early eof''\<rparr>"

definition Tcp_read_exact :: "nat \<Rightarrow> TcpStream \<Rightarrow> (io_error + bytes) \<times> TcpStream" where
  "Tcp_read_exact n s =
     (if n \<le> length (ts_in s) then (Inr (take n (ts_in s)), s\<lparr>ts_in := drop n (ts_in s)\<rparr>)
      else (Inl (case ts_end s of None \<Rightarrow> early_eof | Some e \<Rightarrow> e), s\<lparr>ts_in := []\<rparr>))"

definition Tcp_write_all :: "bytes \<Rightarrow> TcpStream \<Rightarrow> (io_error + unit) \<times> TcpStream" where
  "Tcp_write_all data s =
     (case ts_plan s of
        [] \<Rightarrow> (Inr (), s\<lparr>ts_out := ts_out s @ data\<rparr>)
      | SentAll # plan \<Rightarrow> (Inr (), s\<lparr>ts_out := ts_out s @ data, ts_plan := plan\<rparr>)
      | SentPart e n # plan \<Rightarrow> (Inl e, s\<lparr>ts_out := ts_out s @ take n data, ts_plan := plan\<rparr>))"

section \<open>Server\<close>

record Server =
  srv_db :: Database
  srv_addr :: rstring

definition Server_new :: "rstring \<Rightarrow> Database \<Rightarrow> Server" where
  "Server_new addr db = \<lparr>srv_db = db, srv_addr = addr\<rparr>"

definition handle_request ::
    "(Key list \<Rightarrow> Key list) \<Rightarrow> Request \<Rightarrow> Database \<Rightarrow> Response PDBResult \<times> Database" where
  "handle_request ord req db =
     (case req of
        Request.Ping \<Rightarrow> (Inr (Response.Ok None), db)
      | Request.Get key \<Rightarrow>
          (case Database_get key db of
             Inr field \<Rightarrow> Inr (Response.Ok (Some field))
           | Inl Panic \<Rightarrow> Inl Panic
           | Inl (Err e) \<Rightarrow>
               if e = KeyNotFound then Inr Response.NotFound
               else Inr (Response.ServerError (error_to_string e)), db)
      | Request.Set key field \<Rightarrow>
          (case Database_set key field db of
             (Inr _, db) \<Rightarrow> (Inr (Response.Ok None), db)
           | (Inl Panic, db) \<Rightarrow> (Inl Panic, db)
           | (Inl (Err e), db) \<Rightarrow> (Inr (Response.ServerError (error_to_string e)), db))
      | Request.Del key \<Rightarrow>
          (case Database_delete key db of
             (Inr _, db) \<Rightarrow> (Inr (Response.Ok None), db)
           | (Inl Panic, db) \<Rightarrow> (Inl Panic, db)
           | (Inl (Err e), db) \<Rightarrow>
               (if e = KeyNotFound then Inr Response.NotFound
                else Inr (Response.ServerError (error_to_string e)), db))
      | Request.Keys \<Rightarrow>
          (case Database_keys ord db of
             Inr ks \<Rightarrow> Inr (Response.Keys ks)
           | Inl Panic \<Rightarrow> Inl Panic
           | Inl (Err e) \<Rightarrow> Inr (Response.ServerError (error_to_string e)), db))"

definition framed_response :: "Response \<Rightarrow> bytes" where
  "framed_response res = ProtocolEncoder_frame (ProtocolEncoder_encode_response res ProtocolEncoder_new)"

definition send_response :: "Response \<Rightarrow> TcpStream \<Rightarrow> bool \<times> TcpStream" where
  "send_response res s =
     (case Tcp_write_all (framed_response res) s of (Inl _, s) \<Rightarrow> (False, s) | (Inr _, s) \<Rightarrow> (True, s))"

text \<open>
  One iteration of the loop in two parts: a message is read or the connection ends, and the
  message is answered.
\<close>

datatype received = Message bytes | Closed "unit PDBResult"

definition read_message :: "TcpStream \<Rightarrow> received \<times> TcpStream" where
  "read_message s =
     (case Tcp_read_exact 4 s of
        (Inl e, s) \<Rightarrow>
          (Closed (if io_kind e = UnexpectedEof \<or> io_kind e = ConnectionReset then Inr ()
                   else Inl (Err (Io e))), s)
      | (Inr len_buf, s) \<Rightarrow>
          (let msg_len = unat (from_be_bytes len_buf :: u32) in
           case Tcp_read_exact msg_len s of
             (Inl _, s) \<Rightarrow>
               (case send_response (Response.ServerError (ascii ''failed to read message'')) s of
                  (_, s) \<Rightarrow> (Closed (Inr ()), s))
           | (Inr buf, s) \<Rightarrow> (Message buf, s)))"

datatype loop_end = Continue | Finish "unit PDBResult"

definition answer_message ::
    "third_party \<Rightarrow> (Key list \<Rightarrow> Key list) \<Rightarrow> bytes \<Rightarrow> Database \<times> TcpStream
     \<Rightarrow> loop_end \<times> Database \<times> TcpStream" where
  "answer_message X ord buf = (\<lambda>(db, s).
     case decode_request X buf of
       Inl Panic \<Rightarrow> (Finish (Inl Panic), db, s)
     | Inl (Err _) \<Rightarrow>
         (case send_response Response.InvalidRequest s of
            (sent, s) \<Rightarrow> (if sent then Continue else Finish (Inr ()), db, s))
     | Inr req \<Rightarrow>
         (case handle_request ord req db of
            (Inl f, db) \<Rightarrow> (Finish (Inl f), db, s)
          | (Inr res, db) \<Rightarrow>
              (case Tcp_write_all (framed_response res) s of
                 (Inl _, s) \<Rightarrow> (Finish (Inr ()), db, s)
               | (Inr _, s) \<Rightarrow> (Continue, db, s))))"

definition connection_step ::
    "third_party \<Rightarrow> (Key list \<Rightarrow> Key list) \<Rightarrow> Database \<times> TcpStream \<Rightarrow> loop_end \<times> Database \<times> TcpStream" where
  "connection_step X ord = (\<lambda>(db, s).
     case read_message s of
       (Closed r, s) \<Rightarrow> (Finish r, db, s)
     | (Message buf, s) \<Rightarrow> answer_message X ord buf (db, s))"

lemma Tcp_read_InrD:
  "Tcp_read_exact n s = (Inr bs, s') \<Longrightarrow> length bs = n \<and> ts_in s = bs @ ts_in s' \<and> s' = s\<lparr>ts_in := ts_in s'\<rparr>"
  by (auto simp: Tcp_read_exact_def split: if_split_asm)

lemma Tcp_write_in: "Tcp_write_all data s = (r, s') \<Longrightarrow> ts_in s' = ts_in s"
  by (auto simp: Tcp_write_all_def split: list.splits tcp_outcome.splits)

lemma send_response_in: "send_response res s = (b, s') \<Longrightarrow> ts_in s' = ts_in s"
  by (auto simp: send_response_def split: prod.splits sum.splits dest: Tcp_write_in)

lemma read_message_reads: "read_message s = (Message buf, s') \<Longrightarrow> length (ts_in s') < length (ts_in s)"
  by (auto simp: read_message_def Let_def split: prod.splits sum.splits dest!: Tcp_read_InrD)

lemma answer_message_in: "answer_message X ord buf (db, s) = (r, db', s') \<Longrightarrow> ts_in s' = ts_in s"
  by (auto simp: answer_message_def split: prod.splits sum.splits failure.splits
      dest: Tcp_write_in send_response_in)

lemma connection_step_reads:
  "connection_step X ord (db, s) = (Continue, db', s') \<Longrightarrow> length (ts_in s') < length (ts_in s)"
  by (auto simp: connection_step_def split: prod.splits received.splits
      dest!: read_message_reads answer_message_in)

function handle_connection ::
    "third_party \<Rightarrow> (Key list \<Rightarrow> Key list) \<Rightarrow> Database \<times> TcpStream \<Rightarrow> unit PDBResult \<times> Database \<times> TcpStream" where
  "handle_connection X ord c =
     (case connection_step X ord c of
        (Finish r, c) \<Rightarrow> (r, c)
      | (Continue, c) \<Rightarrow> handle_connection X ord c)"
  by pat_completeness auto
termination
  by (relation "measure (\<lambda>(X, ord, db, s). length (ts_in s))") (auto dest: sym connection_step_reads)

declare handle_connection.simps [simp del]

text \<open>
  \<open>run\<close>: every stream the listener accepts gets a task; the loop ends at the first failing
  \<open>accept\<close>. The accepts are a list of outcomes; after them the server is still waiting (\<open>None\<close>).
\<close>

fun accept_loop :: "(io_error + TcpStream) list \<Rightarrow> TcpStream list \<Rightarrow> unit PDBResult option \<times> TcpStream list" where
  "accept_loop [] spawned = (None, spawned)"
| "accept_loop (Inl e # accepts) spawned = (Some (Inl (Err (Io e))), spawned)"
| "accept_loop (Inr stream # accepts) spawned = accept_loop accepts (spawned @ [stream])"

definition Server_run ::
    "Server \<Rightarrow> (rstring \<Rightarrow> io_error + unit) \<Rightarrow> (io_error + TcpStream) list
     \<Rightarrow> unit PDBResult option \<times> TcpStream list" where
  "Server_run server bind accepts =
     (case bind (srv_addr server) of
        Inl e \<Rightarrow> (Some (Inl (Err (Io e))), [])
      | Inr _ \<Rightarrow> accept_loop accepts [])"

text \<open>\<^verbatim>\<open>main.rs\<close>: open the database \<open>peachdb\<close>, serve it on a fixed address.\<close>

definition server_main ::
    "third_party \<Rightarrow> io_error + File \<Rightarrow> io_error + File \<Rightarrow> io_error + File
     \<Rightarrow> (rstring \<Rightarrow> io_error + unit) \<Rightarrow> (io_error + TcpStream) list
     \<Rightarrow> unit PDBResult option \<times> TcpStream list" where
  "server_main X opened_db opened_idx opened_wal bind accepts =
     (case Database_open X (ascii ''peachdb'') opened_db opened_idx opened_wal of
        (Inl e, _) \<Rightarrow> (Some (Inl e), [])
      | (Inr db, _) \<Rightarrow> Server_run (Server_new (ascii ''127.0.0.1:7878'') db) bind accepts)"

end
