(* ===== verification/Kv_Service.thy ===== *)
theory Kv_Service
  imports Server
begin

text \<open>
  What a client of the server may rely on. \<open>answers\<close> is the meaning of a request on a map and
  \<open>answered\<close> that of a sequence of messages; the locale \<open>request_service\<close> is the contract
  between the connection loop and the handler of requests, interpreted on \<open>handle_request\<close> and
  the storage engine. A connection is compared with \<open>respond_all\<close>, which answers a list of
  messages without streams, frames or buffers.
\<close>

section \<open>The meaning of requests\<close>

fun answers :: "Request \<Rightarrow> (Key \<Rightarrow> Field option) \<Rightarrow> Response \<Rightarrow> (Key \<Rightarrow> Field option) \<Rightarrow> bool" where
  "answers Request.Ping m res m' = (res = Response.Ok None \<and> m' = m)"
| "answers (Request.Get k) m res m' =
     (res = (case m k of Some f \<Rightarrow> Response.Ok (Some f) | None \<Rightarrow> Response.NotFound) \<and> m' = m)"
| "answers (Request.Set k f) m res m' = (res = Response.Ok None \<and> m' = m(k \<mapsto> f))"
| "answers (Request.Del k) m res m' = (res = Response.Ok None \<and> m' = m(k := None))"
| "answers Request.Keys m res m' = ((\<exists>ks. res = Response.Keys ks \<and> distinct ks \<and> set ks = dom m) \<and> m' = m)"

text \<open>A message that is no request gets \<open>InvalidRequest\<close> and changes nothing.\<close>

definition answers_message ::
    "third_party \<Rightarrow> bytes \<Rightarrow> (Key \<Rightarrow> Field option) \<Rightarrow> Response \<Rightarrow> (Key \<Rightarrow> Field option) \<Rightarrow> bool" where
  "answers_message X buf m res m' =
     (case decode_request X buf of
        Inl _ \<Rightarrow> res = Response.InvalidRequest \<and> m' = m
      | Inr req \<Rightarrow> answers req m res m')"

inductive answered ::
    "third_party \<Rightarrow> bytes list \<Rightarrow> (Key \<Rightarrow> Field option) \<Rightarrow> Response list \<Rightarrow> (Key \<Rightarrow> Field option) \<Rightarrow> bool"
  for X where
  answered_Nil: "answered X [] m [] m"
| answered_Cons: "answers_message X buf m res m' \<Longrightarrow> answered X bufs m' ress m''
    \<Longrightarrow> answered X (buf # bufs) m (res # ress) m''"

inductive_simps answered_simps [simp]:
  "answered X [] m ress m'"
  "answered X (buf # bufs) m ress m'"

text \<open>What a message asks of the store, and the messages whose writes the files keep up with.\<close>

fun request_ops :: "Request \<Rightarrow> op list" where
  "request_ops (Request.Set k f) = [OpSet k f]"
| "request_ops (Request.Del k) = [OpDelete k]"
| "request_ops _ = []"

definition message_ops :: "third_party \<Rightarrow> bytes \<Rightarrow> op list" where
  "message_ops X buf = (case decode_request X buf of Inl _ \<Rightarrow> [] | Inr req \<Rightarrow> request_ops req)"

definition servable :: "third_party \<Rightarrow> bytes \<Rightarrow> disk \<Rightarrow> bool" where
  "servable X buf d = (decode_request X buf \<noteq> Inl Panic \<and> admissible_all (message_ops X buf) d)"

fun servable_all :: "third_party \<Rightarrow> bytes list \<Rightarrow> disk \<Rightarrow> bool" where
  "servable_all X [] d = True"
| "servable_all X (buf # bufs) d = (servable X buf d \<and> servable_all X bufs (fold op_disk (message_ops X buf) d))"

section \<open>Answering a list of messages\<close>

definition respond ::
    "third_party \<Rightarrow> (Request \<Rightarrow> 's \<Rightarrow> Response PDBResult \<times> 's) \<Rightarrow> bytes \<Rightarrow> 's \<Rightarrow> Response PDBResult \<times> 's" where
  "respond X serve buf s =
     (case decode_request X buf of
        Inl Panic \<Rightarrow> (Inl Panic, s)
      | Inl (Err _) \<Rightarrow> (Inr Response.InvalidRequest, s)
      | Inr req \<Rightarrow> serve req s)"

fun respond_all ::
    "third_party \<Rightarrow> (Request \<Rightarrow> 's \<Rightarrow> Response PDBResult \<times> 's) \<Rightarrow> bytes list \<Rightarrow> 's
     \<Rightarrow> unit PDBResult \<times> Response list \<times> 's" where
  "respond_all X serve [] s = (Inr (), [], s)"
| "respond_all X serve (buf # bufs) s =
     (case respond X serve buf s of
        (Inl f, s) \<Rightarrow> (Inl f, [], s)
      | (Inr res, s) \<Rightarrow> (case respond_all X serve bufs s of (r, ress, s) \<Rightarrow> (r, res # ress, s)))"

locale request_service =
  fixes serve :: "Request \<Rightarrow> 's \<Rightarrow> Response PDBResult \<times> 's"
    and abs :: "'s \<Rightarrow> Key \<Rightarrow> Field option"
    and inv :: "disk \<Rightarrow> 's \<Rightarrow> bool"
  assumes serve_ok: "inv d s \<Longrightarrow> admissible_all (request_ops req) d \<Longrightarrow>
      \<exists>res s'. serve req s = (Inr res, s') \<and> inv (fold op_disk (request_ops req) d) s'
        \<and> answers req (abs s) res (abs s')"
begin

lemma respond_ok:
  assumes "inv d s" and "servable X buf d"
  shows "\<exists>res s'. respond X serve buf s = (Inr res, s') \<and> inv (fold op_disk (message_ops X buf) d) s'
    \<and> answers_message X buf (abs s) res (abs s')"
proof (cases "decode_request X buf")
  case (Inl f)
  then show ?thesis using assms
    by (cases f) (simp_all add: respond_def answers_message_def message_ops_def servable_def)
next
  case (Inr req)
  with assms(2) have "admissible_all (request_ops req) d" by (simp add: servable_def message_ops_def)
  from serve_ok [OF assms(1) this] Inr show ?thesis
    by (simp add: respond_def answers_message_def message_ops_def)
qed

lemma respond_all_ok:
  "inv d s \<Longrightarrow> servable_all X bufs d \<Longrightarrow>
   \<exists>ress s' d'. respond_all X serve bufs s = (Inr (), ress, s') \<and> inv d' s'
     \<and> d' = fold op_disk (concat (map (message_ops X) bufs)) d \<and> answered X bufs (abs s) ress (abs s')"
proof (induction bufs arbitrary: d s)
  case (Cons buf bufs)
  obtain res s1 where s1: "respond X serve buf s = (Inr res, s1)" "inv (fold op_disk (message_ops X buf) d) s1"
    "answers_message X buf (abs s) res (abs s1)"
    using respond_ok [OF Cons.prems(1), of X buf] Cons.prems(2) by auto
  obtain ress s2 where "respond_all X serve bufs s1 = (Inr (), ress, s2)"
    "inv (fold op_disk (concat (map (message_ops X) bufs)) (fold op_disk (message_ops X buf) d)) s2"
    "answered X bufs (abs s1) ress (abs s2)"
    using Cons.IH [OF s1(2)] Cons.prems(2) by auto
  with s1 show ?case by (auto intro: answered_Cons)
qed simp

end

section \<open>The storage engine as a service\<close>

text \<open>The data structure invariant of a database opened under \<open>name\<close>, for the disk state \<open>d\<close>.\<close>

definition serving :: "third_party \<Rightarrow> bytes \<Rightarrow> disk \<Rightarrow> Database \<Rightarrow> bool" where
  "serving X nm d db = tracks X nm db (db_fields db) d"

lemma tracks_fields: "tracks X nm db m d \<Longrightarrow> db_fields db = m"
  by (auto simp: tracks_def)

lemma run_op_result:
  "(case m of (r, db) \<Rightarrow> and_then r (\<lambda>_. Inr db)) = Inr db' \<longleftrightarrow> m = (Inr (), db')" for m :: "unit PDBResult \<times> 'a"
  by (cases m; cases "fst m") auto

lemma handle_request_ok:
  assumes ord: "hash_order ord" and inv: "serving X nm d db" and adm: "admissible_all (request_ops req) d"
  shows "\<exists>res db'. handle_request ord req db = (Inr res, db')
    \<and> serving X nm (fold op_disk (request_ops req) d) db' \<and> answers req (db_fields db) res (db_fields db')"
proof (cases req)
  case (Set k f)
  obtain db' where "Database_set k f db = (Inr (), db')"
    "tracks X nm db' ((db_fields db)(k \<mapsto> f)) (op_disk (OpSet k f) d)"
    using run_set [of X nm db _ d k f "[]"] inv adm Set by (auto simp: serving_def run_op_result)
  then show ?thesis using Set tracks_fields by (fastforce simp: handle_request_def serving_def)
next
  case (Del k)
  obtain db' where "Database_delete k db = (Inr (), db')"
    "tracks X nm db' ((db_fields db)(k := None)) (op_disk (OpDelete k) d)"
    using run_delete [of X nm db _ d k "[]"] inv adm Del by (auto simp: serving_def run_op_result)
  then show ?thesis using Del tracks_fields by (fastforce simp: handle_request_def serving_def)
next
  case Keys
  have wf: "hm_wf (st_fields (db_state db))"
    using inv by (auto simp: serving_def tracks_def db_clean_def db_rep_def)
  have "distinct (hm_keys ord (st_fields (db_state db)))"
    using wf hash_order_distinct [OF ord] by (simp add: hm_keys_def hm_wf_def)
  moreover have "set (hm_keys ord (st_fields (db_state db))) = dom (db_fields db)"
    using set_hm_keys [OF ord] by auto
  ultimately show ?thesis using inv Keys by (simp add: handle_request_def Database_keys_def)
qed (use inv in \<open>auto simp: handle_request_def Database_get_def split: option.split\<close>)

text \<open>The hash order is part of the service: a server whose maps iterate in some order.\<close>

definition ordered :: "(Key list \<Rightarrow> Key list) \<Rightarrow> Key list \<Rightarrow> Key list" where
  "ordered ord = (if hash_order ord then ord else (\<lambda>ks. ks))"

lemma hash_order_ordered: "hash_order (ordered ord)"
  by (simp add: ordered_def hash_order_instances)

lemma ordered_id [simp]: "hash_order ord \<Longrightarrow> ordered ord = ord"
  by (simp add: ordered_def)

interpretation store: request_service "handle_request (ordered ord)" db_fields "serving X nm"
  by unfold_locales (rule handle_request_ok [OF hash_order_ordered])

section \<open>A connection answers its messages\<close>

definition message_frame :: "bytes \<Rightarrow> bytes" where
  "message_frame buf = to_be_bytes 4 (of_nat (length buf) :: u32) @ buf"

lemma framed_request: "ProtocolEncoder_frame (ProtocolEncoder_encode_request req ProtocolEncoder_new) = message_frame (request_bytes req)"
  by (simp add: message_frame_def ProtocolEncoder_frame_def request_bytes_def ProtocolEncoder_finish_def)

lemma framed_response: "framed_response res = message_frame (response_bytes res)"
  by (simp add: framed_response_def message_frame_def ProtocolEncoder_frame_def response_bytes_def ProtocolEncoder_finish_def)

text \<open>A client that sends one request and closes.\<close>

definition one_request :: "Request \<Rightarrow> TcpStream" where
  "one_request req = \<lparr>ts_in = message_frame (request_bytes req), ts_end = None, ts_out = [], ts_plan = []\<rparr>"

lemma read_message_frame:
  assumes "ts_in s = message_frame buf @ rest" and "length buf < 2 ^ 32"
  shows "read_message s = (Message buf, s\<lparr>ts_in := rest\<rparr>)"
  using assms by (simp add: read_message_def Tcp_read_exact_def message_frame_def from_to_be_bytes unat_of_nat_u32 Let_def)

lemma read_message_end: "ts_in s = [] \<Longrightarrow> ts_end s = None \<Longrightarrow> read_message s = (Closed (Inr ()), s)"
  by (simp add: read_message_def Tcp_read_exact_def early_eof_def)

lemma answer_message_respond:
  assumes "ts_plan s = []"
  shows "answer_message X ord buf (db, s) =
    (case respond X (handle_request ord) buf db of
       (Inl f, db) \<Rightarrow> (Finish (Inl f), db, s)
     | (Inr res, db) \<Rightarrow> (Continue, db, s\<lparr>ts_out := ts_out s @ framed_response res\<rparr>))"
  using assms
  by (auto simp: answer_message_def respond_def send_response_def Tcp_write_all_def
      split: sum.split failure.split prod.split)

lemma handle_connection_frame:
  assumes "ts_in s = message_frame buf @ rest" and "length buf < 2 ^ 32" and "ts_plan s = []"
  shows "handle_connection X ord (db, s) =
    (case respond X (handle_request ord) buf db of
       (Inl f, db) \<Rightarrow> (Inl f, db, s\<lparr>ts_in := rest\<rparr>)
     | (Inr res, db) \<Rightarrow>
         handle_connection X ord (db, s\<lparr>ts_in := rest, ts_out := ts_out s @ framed_response res\<rparr>))"
  using assms read_message_frame [OF assms(1,2)]
  by (subst handle_connection.simps)
    (simp add: connection_step_def answer_message_respond split: prod.split sum.split)

text \<open>Answered messages leave the connection at the rest of its input.\<close>

lemma handle_connection_prefix:
  assumes "ts_in s = concat (map message_frame bufs) @ rest" and "\<forall>buf \<in> set bufs. length buf < 2 ^ 32"
    and "ts_plan s = []" and "respond_all X (handle_request ord) bufs db = (Inr (), ress, db')"
  shows "handle_connection X ord (db, s) = handle_connection X ord (db',
    s\<lparr>ts_in := rest, ts_out := ts_out s @ concat (map framed_response ress)\<rparr>)"
  using assms
proof (induction bufs arbitrary: db s ress)
  case Nil
  then show ?case by (cases s) simp
next
  case (Cons buf bufs)
  obtain res db1 ress' where r: "respond X (handle_request ord) buf db = (Inr res, db1)"
    "respond_all X (handle_request ord) bufs db1 = (Inr (), ress', db')" "ress = res # ress'"
    using Cons.prems(4) by (auto split: prod.splits sum.splits)
  have "ts_in s = message_frame buf @ concat (map message_frame bufs) @ rest" using Cons.prems(1) by simp
  from handle_connection_frame [OF this _ Cons.prems(3)] Cons.prems(2) r
  show ?case
    using Cons.IH [of "s\<lparr>ts_in := concat (map message_frame bufs) @ rest, ts_out := ts_out s @ framed_response res\<rparr>" db1 ress']
      Cons.prems(2,3) by simp
qed

lemma handle_connection_frames:
  assumes "ts_in s = concat (map message_frame bufs)" and "\<forall>buf \<in> set bufs. length buf < 2 ^ 32"
    and "ts_plan s = []" and "ts_end s = None"
    and "respond_all X (handle_request ord) bufs db = (r, ress, db')"
  shows "\<exists>s'. handle_connection X ord (db, s) = (r, db', s')
    \<and> ts_out s' = ts_out s @ concat (map framed_response ress)"
  using assms
proof (induction bufs arbitrary: db s ress)
  case Nil
  then show ?case by (subst handle_connection.simps) (simp add: connection_step_def read_message_end)
next
  case (Cons buf bufs)
  have "ts_in s = message_frame buf @ concat (map message_frame bufs)" using Cons.prems(1) by simp
  note frame = handle_connection_frame [OF this _ Cons.prems(3)]
  obtain r1 db1 where r1: "respond X (handle_request ord) buf db = (r1, db1)" by force
  show ?case
  proof (cases r1)
    case (Inl f)
    then show ?thesis using Cons.prems r1 frame by simp
  next
    case (Inr res)
    let ?s1 = "s\<lparr>ts_in := concat (map message_frame bufs), ts_out := ts_out s @ framed_response res\<rparr>"
    obtain ress' where rest: "respond_all X (handle_request ord) bufs db1 = (r, ress', db')" "ress = res # ress'"
      using Cons.prems(5) r1 Inr by (auto split: prod.splits)
    obtain s' where "handle_connection X ord (db1, ?s1) = (r, db', s')"
      "ts_out s' = ts_out ?s1 @ concat (map framed_response ress')"
      using Cons.IH [of ?s1 db1 ress'] Cons.prems(2-4) rest(1) by auto
    then show ?thesis using rest(2) r1 Inr frame Cons.prems(2) by simp
  qed
qed

text \<open>The two ways a connection ends inside a message.\<close>

lemma handle_connection_torn_length:
  assumes "length (ts_in s) < 4"
  shows "fst (handle_connection X ord (db, s)) =
      (case ts_end s of None \<Rightarrow> Inr ()
       | Some e \<Rightarrow> if io_kind e = UnexpectedEof \<or> io_kind e = ConnectionReset then Inr () else Inl (Err (Io e)))
    \<and> fst (snd (handle_connection X ord (db, s))) = db
    \<and> ts_out (snd (snd (handle_connection X ord (db, s)))) = ts_out s"
  using assms
  by (subst (1 2 3) handle_connection.simps)
    (auto simp: connection_step_def read_message_def Tcp_read_exact_def early_eof_def split: option.split)

lemma handle_connection_torn_body:
  assumes "message_frame buf = ts_in s @ zs" and "zs \<noteq> []" and "4 \<le> length (ts_in s)" and "length buf < 2 ^ 32"
    and "ts_plan s = []"
  shows "\<exists>s'. handle_connection X ord (db, s) = (Inr (), db, s')
    \<and> ts_out s' = ts_out s @ framed_response (Response.ServerError (ascii ''failed to read message''))"
proof -
  have split: "take 4 (ts_in s) = to_be_bytes 4 (of_nat (length buf) :: u32)" "buf = drop 4 (ts_in s) @ zs"
    using append_eq_long [OF assms(1) [unfolded message_frame_def]] assms(3) by simp_all
  then have "length (ts_in s) - 4 < length buf" using assms(2) by (metis length_append length_drop length_greater_0_conv less_add_same_cancel1)
  then show ?thesis
    using split(1) assms(3-5)
    by (subst handle_connection.simps)
      (simp add: connection_step_def read_message_def Tcp_read_exact_def from_to_be_bytes unat_of_nat_u32
        send_response_def Tcp_write_all_def Let_def)
qed

section \<open>Requests on files that fail\<close>

lemma Wal_append_entry_outcome:
  "\<exists>r wal'. Wal_append_entry e wal = (r, wal') \<and> (r = Inr () \<or> (\<exists>text. r = Inl (Err (Io (io_other text)))))"
  by (cases "Wal_append_entry e wal")
    (auto simp: Wal_append_entry_def map_file_handler_error_def Let_def split: prod.splits sum.splits)

lemma handle_request_any:
  assumes "hash_order ord" and "hm_wf (st_fields (db_state db))"
  shows "\<exists>res db'. handle_request ord req db = (Inr res, db')
    \<and> (answers req (db_fields db) res (db_fields db')
       \<or> (\<exists>k f. req = Request.Set k f \<or> req = Request.Del k)
         \<and> (\<exists>text. res = Response.ServerError (ascii ''I/O error: '' @ text)) \<and> db_fields db' = db_fields db)"
proof (cases req)
  case (Set k f)
  obtain r wal' where "Wal_append_entry (WalEntry.Set k f) (db_wal db) = (r, wal')"
    "r = Inr () \<or> (\<exists>text. r = Inl (Err (Io (io_other text))))"
    using Wal_append_entry_outcome by blast
  then show ?thesis
    by (auto simp: Set handle_request_def Database_set_def update_fields_def fun_eq_iff error_to_string_def io_other_def)
next
  case (Del k)
  obtain r wal' where "Wal_append_entry (WalEntry.Delete k) (db_wal db) = (r, wal')"
    "r = Inr () \<or> (\<exists>text. r = Inl (Err (Io (io_other text))))"
    using Wal_append_entry_outcome by blast
  then show ?thesis
    by (auto simp: Del handle_request_def Database_delete_def update_fields_def fun_eq_iff error_to_string_def io_other_def)
next
  case Keys
  have "distinct (hm_keys ord (st_fields (db_state db)))"
    using assms hash_order_distinct [OF assms(1)] by (simp add: hm_keys_def hm_wf_def)
  moreover have "set (hm_keys ord (st_fields (db_state db))) = dom (db_fields db)"
    using set_hm_keys [OF assms(1)] by auto
  ultimately show ?thesis using Keys by (simp add: handle_request_def Database_keys_def)
qed (auto simp: handle_request_def Database_get_def split: option.split)

section \<open>Properties\<close>

text \<open>Messages of the witnesses.\<close>

lemma documented_decode:
  "storable_request req \<Longrightarrow> decode_request (documented_crates checksum) (request_bytes req) = Inr req"
  "decode_request (documented_crates checksum) [7] = Inl (Err (InvalidRequestFormat (ascii ''invalid version'')))"
  using byteorder.decode_request_bytes [OF documented.byteorder_axioms, of req checksum "[]"]
  by (simp_all add: decode_request_def ProtocolDecoder_defs read_simps)

lemma length_request_bytes [simp]:
  "length (request_bytes Request.Ping) = 2"
  "length (request_bytes Request.Keys) = 2"
  "length (request_bytes (Request.Get k)) = 4 + length (Key_as_bytes k)"
  "length (request_bytes (Request.Del k)) = 4 + length (Key_as_bytes k)"
  "length (request_bytes (Request.Set k f)) = 8 + length (Key_as_bytes k) + length (bytes_from_field f)"
  by (simp_all add: request_bytes_simps response_key_bytes_def)

lemmas message_eval = documented_decode servable_def message_ops_def answers_message_def admissible_eval

text \<open>
  C34. The loop over a connection, with its framing, buffers and cursors, computes what answering the
  list of messages one by one computes: the same result, the same database, and as output the frames of
  the same responses in the order of the messages.
\<close>

theorem connection_equals_respond_all:
  assumes "ts_in s = concat (map message_frame bufs)" and "\<forall>buf \<in> set bufs. length buf < 2 ^ 32"
    and "ts_plan s = []" and "ts_end s = None"
    and "respond_all X (handle_request ord) bufs db = (r, ress, db')"
  shows "\<exists>s'. handle_connection X ord (db, s) = (r, db', s')
    \<and> ts_out s' = ts_out s @ concat (map framed_response ress)"
  by (rule handle_connection_frames [OF assms])

theorem connection_equals_respond_all_witness:
  "\<forall>db. \<exists>s'. handle_connection (documented_crates (\<lambda>_. 7)) rev (db,
      \<lparr>ts_in = message_frame (request_bytes Request.Ping) @ message_frame [7], ts_end = None, ts_out = [], ts_plan = []\<rparr>)
      = (Inr (), db, s')
    \<and> ts_out s' = framed_response (Response.Ok None) @ framed_response Response.InvalidRequest"
proof
  fix db
  let ?s = "\<lparr>ts_in = message_frame (request_bytes Request.Ping) @ message_frame [7], ts_end = None, ts_out = [], ts_plan = []\<rparr>"
  show "\<exists>s'. handle_connection (documented_crates (\<lambda>_. 7)) rev (db, ?s) = (Inr (), db, s')
    \<and> ts_out s' = framed_response (Response.Ok None) @ framed_response Response.InvalidRequest"
    using connection_equals_respond_all [of ?s "[request_bytes Request.Ping, [7]]" "documented_crates (\<lambda>_. 7)" rev db
        "Inr ()" "[Response.Ok None, Response.InvalidRequest]" db]
    by (simp add: respond_def handle_request_def documented_decode)
qed

text \<open>
  C4. Composition of the server, the protocol and the storage engine: each message a client sends is
  answered as the map at that moment answers it, one that the request decoder refuses with an error is
  answered \<open>InvalidRequest\<close> and the connection goes on, and a restart after the connection gives
  exactly the map its last message left. Conditions: no call on the files or the stream fails, the decoder
  panics on none of the messages, the keys written are not empty, no deleted key has two records on
  disk, lengths fit and the file has room (\<open>admissible_all\<close>, \<open>servable_all\<close>).
\<close>

theorem connection_serves_map:
  assumes "byteorder X" and "length name \<le> 64" and "hash_order ord" and "admissible_all ops empty_disk"
    and "servable_all X bufs (fold op_disk ops empty_disk)" and "\<forall>buf \<in> set bufs. length buf < 2 ^ 32"
    and "ts_in s = concat (map message_frame bufs)" and "ts_plan s = []" and "ts_end s = None"
  shows "\<exists>db ress db' s' db2. and_then (new_database X name) (run_ops X name ops) = Inr db
    \<and> handle_connection X ord (db, s) = (Inr (), db', s')
    \<and> ts_out s' = ts_out s @ concat (map framed_response ress)
    \<and> answered X bufs (fold op_map ops Map.empty) ress (db_fields db')
    \<and> Database_restart X name db' = Inr db2 \<and> db_fields db2 = db_fields db'"
proof -
  let ?nm = "name_field name" let ?d = "fold op_disk ops empty_disk"
  obtain db0 where db0: "new_database X name = Inr db0" "tracks X ?nm db0 Map.empty empty_disk"
    using new_database_tracks [OF assms(2)] by blast
  obtain db where db: "run_ops X name ops db0 = Inr db" "tracks X ?nm db (fold op_map ops Map.empty) ?d"
    using run_all [OF assms(1,2) db0(2) assms(4)] by blast
  have inv: "serving X ?nm ?d db" and m: "db_fields db = fold op_map ops Map.empty"
    using db(2) tracks_fields by (auto simp: serving_def)
  obtain ress db' d' where r: "respond_all X (handle_request ord) bufs db = (Inr (), ress, db')"
    "serving X ?nm d' db'" "answered X bufs (db_fields db) ress (db_fields db')"
    using store.respond_all_ok [OF inv assms(5), of ord] assms(3) by auto
  obtain db2 where "Database_restart X name db' = Inr db2" "tracks X ?nm db2 (db_fields db') d'"
    using run_restart [OF assms(1,2) r(2) [unfolded serving_def]] by auto
  moreover from this(2) have "db_fields db2 = db_fields db'" by (rule tracks_fields)
  moreover have "and_then (new_database X name) (run_ops X name ops) = Inr db" by (simp add: db0(1) db(1))
  moreover obtain s' where "handle_connection X ord (db, s) = (Inr (), db', s')"
    "ts_out s' = ts_out s @ concat (map framed_response ress)"
    using handle_connection_frames [OF assms(7,6,8,9) r(1)] by blast
  ultimately show ?thesis using r(3) unfolding m by blast
qed

theorem connection_serves_map_witness:
  "\<exists>db db' s'. and_then (new_database (documented_crates (\<lambda>_. 7)) (ascii ''peach''))
        (run_ops (documented_crates (\<lambda>_. 7)) (ascii ''peach'') []) = Inr db
    \<and> handle_connection (documented_crates (\<lambda>_. 7)) rev (db, \<lparr>ts_in = message_frame
          (request_bytes (Request.Set (Key [107]) (Field.Raw [1]))) @ message_frame [7] @ message_frame
          (request_bytes (Request.Get (Key [107]))), ts_end = None, ts_out = [], ts_plan = []\<rparr>) = (Inr (), db', s')
    \<and> ts_out s' = framed_response (Response.Ok None) @ framed_response Response.InvalidRequest
        @ framed_response (Response.Ok (Some (Field.Raw [1])))"
proof -
  let ?X = "documented_crates (\<lambda>_. 7)" and ?bufs = "[request_bytes (Request.Set (Key [107]) (Field.Raw [1])),
    [7], request_bytes (Request.Get (Key [107]))]"
  let ?s = "\<lparr>ts_in = concat (map message_frame ?bufs), ts_end = None, ts_out = [], ts_plan = []\<rparr>"
  have "servable_all ?X ?bufs (fold op_disk [] empty_disk)" by (simp add: message_eval)
  note serves = connection_serves_map [OF documented.byteorder_axioms _ hash_order_instances(2) _ this, of "ascii ''peach''" ?s]
  have "\<exists>db ress db' s' db2. and_then (new_database ?X (ascii ''peach'')) (run_ops ?X (ascii ''peach'') []) = Inr db
    \<and> handle_connection ?X rev (db, ?s) = (Inr (), db', s')
    \<and> ts_out s' = ts_out ?s @ concat (map framed_response ress)
    \<and> answered ?X ?bufs (fold op_map [] Map.empty) ress (db_fields db')
    \<and> Database_restart ?X (ascii ''peach'') db' = Inr db2 \<and> db_fields db2 = db_fields db'"
    by (rule serves) simp_all
  then obtain db ress db' s' where run: "and_then (new_database ?X (ascii ''peach'')) (run_ops ?X (ascii ''peach'') []) = Inr db"
    "handle_connection ?X rev (db, ?s) = (Inr (), db', s')"
    "ts_out s' = ts_out ?s @ concat (map framed_response ress)" "answered ?X ?bufs (fold op_map [] Map.empty) ress (db_fields db')"
    by blast
  from run(4) have "ress = [Response.Ok None, Response.InvalidRequest, Response.Ok (Some (Field.Raw [1]))]"
    by (auto simp: message_eval)
  with run(1-3) show ?thesis by (intro exI [of _ db] exI [of _ db'] exI [of _ s']) simp
qed

text \<open>
  C35. Whatever the files do, no request panics the handler, and its answer is either what the map in
  memory answers or, for a write, the text of an I/O error with the map unchanged. So no \<open>Del\<close> is
  answered \<open>NotFound\<close>, and \<open>TypeError\<close> and \<open>InvalidRequest\<close> are answers to no request.
\<close>

theorem request_answered_or_reported:
  assumes "hash_order ord" and "hm_wf (st_fields (db_state db))"
  shows "\<exists>res db'. handle_request ord req db = (Inr res, db')
    \<and> (answers req (db_fields db) res (db_fields db')
       \<or> (\<exists>k f. req = Request.Set k f \<or> req = Request.Del k)
         \<and> (\<exists>text. res = Response.ServerError (ascii ''I/O error: '' @ text)) \<and> db_fields db' = db_fields db)"
  by (rule handle_request_any [OF assms])

theorem request_answered_or_reported_witness:
  "\<exists>res db'. handle_request rev (Request.Del (Key [107])) (fresh_database (ascii ''peach'')
      \<lparr>wal_file = (empty_file True)\<lparr>f_plan := [IoFail (io_other (ascii ''no space'')) 0]\<rparr>, wal_entries = []\<rparr>) = (Inr res, db')
    \<and> res \<noteq> Response.NotFound"
proof -
  let ?db = "fresh_database (ascii ''peach'')
      \<lparr>wal_file = (empty_file True)\<lparr>f_plan := [IoFail (io_other (ascii ''no space'')) 0]\<rparr>, wal_entries = []\<rparr>"
  have "hm_wf (st_fields (db_state ?db))" by (simp add: fresh_database_def)
  from request_answered_or_reported [OF hash_order_instances(2) this, of "Request.Del (Key [107])"]
  show ?thesis by auto
qed

text \<open>
  C38. A message on which the request decoder panics ends the connection's task: the messages before it
  are answered and their writes stay, the message and everything after it get no answer at all.
\<close>

theorem panicking_message_kills_connection:
  assumes "hash_order ord" and "serving X nm d db" and "servable_all X bufs d"
    and "decode_request X bad = Inl Panic" and "\<forall>buf \<in> set (bufs @ [bad]). length buf < 2 ^ 32"
    and "ts_in s = concat (map message_frame (bufs @ [bad])) @ rest" and "ts_plan s = []"
  shows "\<exists>ress db' s'. handle_connection X ord (db, s) = (Inl Panic, db', s')
    \<and> answered X bufs (db_fields db) ress (db_fields db')
    \<and> ts_out s' = ts_out s @ concat (map framed_response ress)"
proof -
  obtain ress db' where r: "respond_all X (handle_request ord) bufs db = (Inr (), ress, db')"
    "answered X bufs (db_fields db) ress (db_fields db')"
    using store.respond_all_ok [OF assms(2,3), of ord] assms(1) by auto
  let ?s = "s\<lparr>ts_in := message_frame bad @ rest, ts_out := ts_out s @ concat (map framed_response ress)\<rparr>"
  have "handle_connection X ord (db, s) = handle_connection X ord (db', ?s)"
    by (rule handle_connection_prefix [OF _ _ assms(7) r(1)]) (use assms(5,6) in simp_all)
  also have "\<dots> = (Inl Panic, db', ?s\<lparr>ts_in := rest\<rparr>)"
    using handle_connection_frame [of ?s bad rest X ord db'] assms(4,5,7) by (simp add: respond_def)
  finally show ?thesis using r(2) by auto
qed

theorem panicking_message_kills_connection_witness:
  "\<exists>db db' s'. new_database (documented_crates (\<lambda>_. 7)) (ascii ''peach'') = Inr db
    \<and> handle_connection (documented_crates (\<lambda>_. 7)) rev (db, \<lparr>ts_in = message_frame
        (1 # 3 # response_key_bytes (Key [107]) @ to_be_bytes 4 (of_nat (length [4 :: u8]) :: u32) @ [4]),
        ts_end = None, ts_out = [], ts_plan = []\<rparr>) = (Inl Panic, db', s') \<and> ts_out s' = []"
proof -
  let ?X = "documented_crates (\<lambda>_. 7)" and ?nm = "name_field (ascii ''peach'')"
  let ?bad = "1 # 3 # response_key_bytes (Key [107]) @ to_be_bytes 4 (of_nat (length [4 :: u8]) :: u32) @ [4]"
  obtain db where db: "new_database ?X (ascii ''peach'') = Inr db" "serving ?X ?nm empty_disk db"
    using new_database_tracks [of "ascii ''peach''" ?X] tracks_fields by (fastforce simp: serving_def)
  have "decode_request ?X ?bad = Inl Panic"
    by (rule byteorder.decode_request_malformed_field [OF documented.byteorder_axioms])
      (simp_all add: storable_key_def Key_len_def field_from_bytes_def Dtype_try_from_def)
  from panicking_message_kills_connection [OF hash_order_instances(2) db(2) _ this, of "[]"
      "\<lparr>ts_in = message_frame ?bad, ts_end = None, ts_out = [], ts_plan = []\<rparr>" "[]"] db(1)
  show ?thesis by (auto simp: response_key_bytes_def)
qed

text \<open>
  C39. The ways a connection ends inside a message: an end of file or a reset inside the length closes it
  silently, another error is returned; a message shorter than its length is answered with
  \<open>failed to read message\<close> before the connection closes. The database is untouched in all of them.
\<close>

theorem torn_message_reported:
  assumes "message_frame buf = ts_in s @ zs" and "zs \<noteq> []" and "length buf < 2 ^ 32" and "ts_plan s = []"
  shows "fst (snd (handle_connection X ord (db, s))) = db
    \<and> (4 \<le> length (ts_in s) \<longrightarrow> fst (handle_connection X ord (db, s)) = Inr ()
        \<and> ts_out (snd (snd (handle_connection X ord (db, s))))
            = ts_out s @ framed_response (Response.ServerError (ascii ''failed to read message'')))
    \<and> (length (ts_in s) < 4 \<longrightarrow> fst (handle_connection X ord (db, s)) =
          (case ts_end s of None \<Rightarrow> Inr ()
           | Some e \<Rightarrow> if io_kind e = UnexpectedEof \<or> io_kind e = ConnectionReset then Inr () else Inl (Err (Io e)))
        \<and> ts_out (snd (snd (handle_connection X ord (db, s)))) = ts_out s)"
  using handle_connection_torn_length [of s X ord db] handle_connection_torn_body [OF assms(1,2) _ assms(3,4), of X ord db]
  by (cases "4 \<le> length (ts_in s)") auto

theorem torn_message_reported_witness:
  "\<forall>X ord db. ts_out (snd (snd (handle_connection X ord (db, \<lparr>ts_in = [0, 0, 0, 1], ts_end = None, ts_out = [], ts_plan = []\<rparr>))))
    = framed_response (Response.ServerError (ascii ''failed to read message''))"
proof (intro allI)
  fix X ord db
  show "ts_out (snd (snd (handle_connection X ord (db, \<lparr>ts_in = [0, 0, 0, 1], ts_end = None, ts_out = [], ts_plan = []\<rparr>))))
    = framed_response (Response.ServerError (ascii ''failed to read message''))"
    using torn_message_reported [of "[5]" "\<lparr>ts_in = [0, 0, 0, 1], ts_end = None, ts_out = [], ts_plan = []\<rparr>" "[5]" X ord db]
    by (simp add: message_frame_def be_1)
qed

end
