(* ===== verification/Concurrent_Server.thy ===== *)
theory Concurrent_Server
  imports Kv_Service
begin

text \<open>
  The tasks that \<^verbatim>\<open>Server::run\<close> spawns, one per connection, over the shared database. The relation
  \<open>server_step\<close> lets them interleave wherever the code waits: between messages, for the mutex of the log,
  between the two requests that \<open>append_entry\<close> makes of the log's file while it holds the mutex, and for
  the state's lock. That lock is never held across a wait, so what a task does under it is one step.
  A task whose input has not arrived is one that is not scheduled; the relation leaves the order of the steps
  open, so a lemma about every run covers every delay. An event says what a step did.
\<close>

section \<open>Tasks\<close>

text \<open>
  A write goes through four stages: it wants the log's mutex, holds it, has written its entry, and has
  released the mutex with its entry synced.
\<close>

datatype task =
    Waiting TcpStream
  | Wanting WalEntry bytes TcpStream
  | Holding WalEntry bytes TcpStream
  | Syncing WalEntry bytes TcpStream
  | Logged WalEntry bytes TcpStream
  | Done "unit PDBResult" TcpStream

record system =
  sys_db :: Database
  sys_owner :: "nat option"
  sys_tasks :: "task list"

datatype event =
    EvRequest nat WalEntry | EvLock nat | EvLog nat WalEntry | EvSync nat
  | EvAnswer nat bytes Response | EvClose nat

fun logged_entry :: "Request \<Rightarrow> WalEntry option" where
  "logged_entry (Request.Set k f) = Some (WalEntry.Set k f)"
| "logged_entry (Request.Del k) = Some (WalEntry.Delete k)"
| "logged_entry _ = None"

text \<open>The task after writing a response, and the response to a failed write.\<close>

definition after_answer :: "Response \<Rightarrow> TcpStream \<Rightarrow> task" where
  "after_answer res s =
     (case Tcp_write_all (framed_response res) s of (Inl _, s) \<Rightarrow> Done (Inr ()) s | (Inr _, s) \<Rightarrow> Waiting s)"

fun write_error :: "WalEntry \<Rightarrow> PeachDbError \<Rightarrow> Response" where
  "write_error (WalEntry.Set k f) e = Response.ServerError (error_to_string e)"
| "write_error (WalEntry.Delete k) e =
     (if e = KeyNotFound then Response.NotFound else Response.ServerError (error_to_string e))"

definition put_task :: "nat \<Rightarrow> task \<Rightarrow> system \<Rightarrow> system" where
  "put_task i tk sys = sys\<lparr>sys_tasks := (sys_tasks sys)[i := tk]\<rparr>"

definition put_log :: "Wal \<Rightarrow> system \<Rightarrow> system" where
  "put_log wal sys = sys\<lparr>sys_db := (sys_db sys)\<lparr>db_wal := wal\<rparr>\<rparr>"

definition task_at :: "system \<Rightarrow> nat \<Rightarrow> task \<Rightarrow> bool" where
  "task_at sys i tk = (i < length (sys_tasks sys) \<and> sys_tasks sys ! i = tk)"

inductive server_step :: "third_party \<Rightarrow> (Key list \<Rightarrow> Key list) \<Rightarrow> system \<Rightarrow> event \<Rightarrow> system \<Rightarrow> bool"
  for X ord where
  step_close: "task_at sys i (Waiting s) \<Longrightarrow> read_message s = (Closed r, s')
    \<Longrightarrow> server_step X ord sys (EvClose i) (put_task i (Done r s') sys)"
| step_panic: "task_at sys i (Waiting s) \<Longrightarrow> read_message s = (Message buf, s')
    \<Longrightarrow> decode_request X buf = Inl Panic
    \<Longrightarrow> server_step X ord sys (EvClose i) (put_task i (Done (Inl Panic) s') sys)"
| step_invalid: "task_at sys i (Waiting s) \<Longrightarrow> read_message s = (Message buf, s')
    \<Longrightarrow> decode_request X buf = Inl (Err e)
    \<Longrightarrow> server_step X ord sys (EvAnswer i buf Response.InvalidRequest)
          (put_task i (after_answer Response.InvalidRequest s') sys)"
| step_read: "task_at sys i (Waiting s) \<Longrightarrow> read_message s = (Message buf, s')
    \<Longrightarrow> decode_request X buf = Inr req \<Longrightarrow> logged_entry req = None
    \<Longrightarrow> handle_request ord req (sys_db sys) = (Inr res, db')
    \<Longrightarrow> server_step X ord sys (EvAnswer i buf res) (put_task i (after_answer res s') (sys\<lparr>sys_db := db'\<rparr>))"
| step_request: "task_at sys i (Waiting s) \<Longrightarrow> read_message s = (Message buf, s')
    \<Longrightarrow> decode_request X buf = Inr req \<Longrightarrow> logged_entry req = Some e
    \<Longrightarrow> server_step X ord sys (EvRequest i e) (put_task i (Wanting e buf s') sys)"
| step_lock: "task_at sys i (Wanting e buf s) \<Longrightarrow> sys_owner sys = None
    \<Longrightarrow> server_step X ord sys (EvLock i) (put_task i (Holding e buf s) (sys\<lparr>sys_owner := Some i\<rparr>))"
| step_write: "task_at sys i (Holding e buf s) \<Longrightarrow> append_write e (db_wal (sys_db sys)) = (Inr (), wal)
    \<Longrightarrow> server_step X ord sys (EvLog i e) (put_task i (Syncing e buf s) (put_log wal sys))"
| step_write_error: "task_at sys i (Holding e buf s) \<Longrightarrow> append_write e (db_wal (sys_db sys)) = (Inl (Err err), wal)
    \<Longrightarrow> server_step X ord sys (EvAnswer i buf (write_error e err))
          (put_task i (after_answer (write_error e err) s) (put_log wal sys\<lparr>sys_owner := None\<rparr>))"
| step_sync: "task_at sys i (Syncing e buf s) \<Longrightarrow> append_sync (db_wal (sys_db sys)) = (Inr (), wal)
    \<Longrightarrow> server_step X ord sys (EvSync i) (put_task i (Logged e buf s) (put_log wal sys\<lparr>sys_owner := None\<rparr>))"
| step_sync_error: "task_at sys i (Syncing e buf s) \<Longrightarrow> append_sync (db_wal (sys_db sys)) = (Inl (Err err), wal)
    \<Longrightarrow> server_step X ord sys (EvAnswer i buf (write_error e err))
          (put_task i (after_answer (write_error e err) s) (put_log wal sys\<lparr>sys_owner := None\<rparr>))"
| step_apply: "task_at sys i (Logged e buf s)
    \<Longrightarrow> server_step X ord sys (EvAnswer i buf (Response.Ok None))
          (put_task i (after_answer (Response.Ok None) s)
            (sys\<lparr>sys_db := update_fields (apply_wal_entry e) (sys_db sys)\<rparr>))"

inductive server_run :: "third_party \<Rightarrow> (Key list \<Rightarrow> Key list) \<Rightarrow> system \<Rightarrow> event list \<Rightarrow> system \<Rightarrow> bool"
  for X ord where
  run_Nil: "server_run X ord sys [] sys"
| run_Cons: "server_step X ord sys ev sys' \<Longrightarrow> server_run X ord sys' evs sys''
    \<Longrightarrow> server_run X ord sys (ev # evs) sys''"

inductive_simps server_run_simps [simp]:
  "server_run X ord sys [] sys'"
  "server_run X ord sys (ev # evs) sys'"

text \<open>A property of single steps is one of runs.\<close>

lemma server_run_invariant:
  assumes "\<And>sys ev sys'. server_step X ord sys ev sys' \<Longrightarrow> P sys \<Longrightarrow> P sys'"
  shows "server_run X ord sys evs sys' \<Longrightarrow> P sys \<Longrightarrow> P sys'"
  by (induction rule: server_run.induct) (auto intro: assms)

lemma put_task_simps [simp]:
  "sys_db (put_task i tk sys) = sys_db sys"
  "sys_owner (put_task i tk sys) = sys_owner sys"
  "sys_tasks (put_task i tk sys) = (sys_tasks sys)[i := tk]"
  by (simp_all add: put_task_def)

lemma put_log_simps [simp]:
  "sys_db (put_log wal sys) = (sys_db sys)\<lparr>db_wal := wal\<rparr>"
  "sys_owner (put_log wal sys) = sys_owner sys"
  "sys_tasks (put_log wal sys) = sys_tasks sys"
  by (simp_all add: put_log_def)

lemma task_at_put [simp]:
  "task_at (put_task i tk sys) j tk' \<longleftrightarrow>
     (if i = j then j < length (sys_tasks sys) \<and> tk = tk' else task_at sys j tk')"
  by (auto simp: task_at_def)

lemma task_at_frame [simp]:
  "task_at (sys\<lparr>sys_db := db\<rparr>) i tk = task_at sys i tk"
  "task_at (sys\<lparr>sys_owner := own\<rparr>) i tk = task_at sys i tk"
  "task_at (put_log wal sys) i tk = task_at sys i tk"
  by (simp_all add: task_at_def)

lemma task_at_unique: "task_at sys i tk \<Longrightarrow> task_at sys i tk' \<Longrightarrow> tk = tk'"
  by (simp add: task_at_def)

section \<open>Every run is bounded\<close>

text \<open>What a task may still do: five steps for each byte it may still read, and those of its write.\<close>

fun task_work :: "task \<Rightarrow> nat" where
  "task_work (Waiting s) = 5 * length (ts_in s) + 1"
| "task_work (Wanting e buf s) = 5 * length (ts_in s) + 5"
| "task_work (Holding e buf s) = 5 * length (ts_in s) + 4"
| "task_work (Syncing e buf s) = 5 * length (ts_in s) + 3"
| "task_work (Logged e buf s) = 5 * length (ts_in s) + 2"
| "task_work (Done r s) = 0"

fun finished :: "task \<Rightarrow> bool" where
  "finished (Done r s) = True"
| "finished _ = False"

definition system_work :: "system \<Rightarrow> nat" where
  "system_work sys = sum_list (map task_work (sys_tasks sys))"

lemma after_answer_work: "task_work (after_answer res s) \<le> 5 * length (ts_in s) + 1"
  by (auto simp: after_answer_def split: prod.split sum.split dest: Tcp_write_in)

lemma sum_list_update_less:
  "i < length xs \<Longrightarrow> f y < f (xs ! i) \<Longrightarrow> sum_list (map f (xs[i := y])) < (sum_list (map f xs) :: nat)"
  by (induction xs arbitrary: i) (auto split: nat.split simp: nth_Cons)

fun event_task :: "event \<Rightarrow> nat" where
  "event_task (EvRequest i e) = i"
| "event_task (EvLock i) = i"
| "event_task (EvLog i e) = i"
| "event_task (EvSync i) = i"
| "event_task (EvAnswer i buf res) = i"
| "event_task (EvClose i) = i"

text \<open>A step is one task's: it gets nearer its end, the others stay where they are.\<close>

lemma step_task:
  assumes "server_step X ord sys ev sys'"
  shows "\<exists>tk tk'. task_at sys (event_task ev) tk \<and> sys_tasks sys' = (sys_tasks sys)[event_task ev := tk']
    \<and> task_work tk' < task_work tk"
  using assms
  by cases (fastforce dest: read_message_reads intro: le_less_trans [OF after_answer_work])+

lemma step_decreases: "server_step X ord sys ev sys' \<Longrightarrow> system_work sys' < system_work sys"
  using step_task [of X ord sys ev sys'] by (auto simp: system_work_def task_at_def intro!: sum_list_update_less)

lemma step_others: "server_step X ord sys ev sys' \<Longrightarrow> i \<noteq> event_task ev \<Longrightarrow> task_at sys' i tk = task_at sys i tk"
  using step_task [of X ord sys ev sys'] by (auto simp: task_at_def)

lemma run_bounded: "server_run X ord sys evs sys' \<Longrightarrow> length evs + system_work sys' \<le> system_work sys"
  by (induction rule: server_run.induct) (auto dest: step_decreases)

section \<open>The mutex of the log\<close>

text \<open>A task owns the mutex exactly while it is inside \<open>append_entry\<close>.\<close>

fun in_log :: "task \<Rightarrow> bool" where
  "in_log (Holding e buf s) = True"
| "in_log (Syncing e buf s) = True"
| "in_log _ = False"

definition lock_inv :: "system \<Rightarrow> bool" where
  "lock_inv sys =
     ((\<forall>i < length (sys_tasks sys). in_log (sys_tasks sys ! i) \<longleftrightarrow> sys_owner sys = Some i)
      \<and> (\<forall>i. sys_owner sys = Some i \<longrightarrow> i < length (sys_tasks sys)))"

lemma in_log_after_answer [simp]: "\<not> in_log (after_answer res s)"
  by (auto simp: after_answer_def split: prod.split sum.split)

lemma lock_invD: "lock_inv sys \<Longrightarrow> task_at sys i tk \<Longrightarrow> in_log tk \<longleftrightarrow> sys_owner sys = Some i"
  by (auto simp: lock_inv_def task_at_def)

lemma lock_inv_owner: "lock_inv sys \<Longrightarrow> sys_owner sys = Some i \<Longrightarrow> \<exists>tk. task_at sys i tk \<and> in_log tk"
  by (auto simp: lock_inv_def task_at_def)

lemma lock_inv_put:
  assumes "lock_inv sys" and "task_at sys i tk" and "sys_tasks sys' = (sys_tasks sys)[i := tk']"
    and "sys_owner sys' = (if in_log tk' then Some i else if in_log tk then None else sys_owner sys)"
    and "in_log tk' \<longrightarrow> in_log tk \<or> sys_owner sys = None"
  shows "lock_inv sys'"
  using assms by (auto simp: lock_inv_def task_at_def nth_list_update split: if_split_asm)

lemma step_lock_inv: "server_step X ord sys ev sys' \<Longrightarrow> lock_inv sys \<Longrightarrow> lock_inv sys'"
proof (induction rule: server_step.induct)
  case (step_write sys i e buf s wal)
  then show ?case using lock_invD [OF step_write(3,1)]
    by (intro lock_inv_put [OF step_write(3,1), where tk' = "Syncing e buf s"]) simp_all
qed (erule lock_inv_put, assumption, simp, simp, simp)+

lemma run_lock_inv: "server_run X ord sys evs sys' \<Longrightarrow> lock_inv sys \<Longrightarrow> lock_inv sys'"
  by (rule server_run_invariant [of X ord lock_inv]) (rule step_lock_inv)

section \<open>No task is stuck\<close>

lemma append_write_cases:
  obtains wal' where "append_write e wal = (Inr (), wal')"
  | what wal' where "append_write e wal = (Inl (Err (Io (io_other what))), wal')"
  by (cases "append_write e wal")
    (auto simp: append_write_def map_file_handler_error_def split: prod.splits sum.splits)

lemma append_sync_cases:
  obtains wal' where "append_sync wal = (Inr (), wal')"
  | what wal' where "append_sync wal = (Inl (Err (Io (io_other what))), wal')"
  by (cases "append_sync wal")
    (auto simp: append_sync_def map_file_handler_error_def split: prod.splits sum.splits)

lemma read_request_total: "logged_entry req = None \<Longrightarrow> \<exists>res. handle_request ord req db = (Inr res, db)"
  by (cases req) (auto simp: handle_request_def Database_get_def Database_keys_def split: option.split)

text \<open>Only a task that wants the mutex may have to wait for another.\<close>

lemma step_enabled:
  assumes "task_at sys i tk" and "\<not> finished tk" and "\<And>e buf s. tk = Wanting e buf s \<Longrightarrow> sys_owner sys = None"
  shows "\<exists>ev sys'. server_step X ord sys ev sys' \<and> event_task ev = i"
proof (cases tk)
  case (Waiting s)
  note at = assms(1) [unfolded Waiting]
  obtain m s' where m: "read_message s = (m, s')" by force
  show ?thesis
  proof (cases m)
    case (Closed r)
    then show ?thesis using step_close [OF at] m by fastforce
  next
    case (Message buf)
    note msg = m [unfolded Message]
    show ?thesis
    proof (cases "decode_request X buf")
      case (Inl f)
      then show ?thesis using step_panic [OF at msg] step_invalid [OF at msg] by (cases f) fastforce+
    next
      case (Inr req)
      show ?thesis
      proof (cases "logged_entry req")
        case None
        then obtain res where "handle_request ord req (sys_db sys) = (Inr res, sys_db sys)"
          using read_request_total by blast
        with step_read [OF at msg Inr None] show ?thesis by fastforce
      next
        case (Some e)
        then show ?thesis using step_request [OF at msg Inr Some] by fastforce
      qed
    qed
  qed
next
  case (Wanting e buf s)
  then show ?thesis using step_lock assms(1,3) by fastforce
next
  case (Holding e buf s)
  then show ?thesis using step_write step_write_error assms(1)
    by (cases rule: append_write_cases [of e "db_wal (sys_db sys)"]) fastforce+
next
  case (Syncing e buf s)
  then show ?thesis using step_sync step_sync_error assms(1)
    by (cases rule: append_sync_cases [of "db_wal (sys_db sys)"]) fastforce+
next
  case (Logged e buf s)
  then show ?thesis using step_apply assms(1) by fastforce
qed (use assms in simp)

lemma run_append: "server_run X ord sys evs sys' \<Longrightarrow> server_run X ord sys' evs' sys'' \<Longrightarrow> server_run X ord sys (evs @ evs') sys''"
  by (induction rule: server_run.induct) auto

text \<open>The steps of a write, with nothing in between, are what \<open>handle_request\<close> does.\<close>

lemma apply_wal_entry_insert: "apply_wal_entry (WalEntry.Set k f) = hm_insert k f" "apply_wal_entry (WalEntry.Delete k) = hm_remove k"
  by (simp_all add: fun_eq_iff)

lemma handle_request_steps:
  assumes "logged_entry req = Some e"
  shows "handle_request ord req db =
    (case append_write e (db_wal db) of
       (Inl f, wal) \<Rightarrow> (case f of Err err \<Rightarrow> Inr (write_error e err) | Panic \<Rightarrow> Inl Panic, db\<lparr>db_wal := wal\<rparr>)
     | (Inr _, wal) \<Rightarrow>
         (case append_sync wal of
            (Inl f, wal) \<Rightarrow> (case f of Err err \<Rightarrow> Inr (write_error e err) | Panic \<Rightarrow> Inl Panic, db\<lparr>db_wal := wal\<rparr>)
          | (Inr _, wal) \<Rightarrow> (Inr (Response.Ok None), update_fields (apply_wal_entry e) (db\<lparr>db_wal := wal\<rparr>))))"
  using assms
  by (cases req)
    (auto simp: handle_request_def Database_set_def Database_delete_def Wal_append_entry_split
      apply_wal_entry_insert split: prod.split sum.split failure.split)

text \<open>
  Connections between two messages need not do anything for the others to end: whoever wants the mutex
  waits for its owner, which is inside \<open>append_entry\<close> and can go on.
\<close>

lemma others_step:
  assumes lock: "lock_inv sys" and idle: "\<forall>i \<in> I. \<exists>s. task_at sys i (Waiting s)"
    and "j \<notin> I" and "task_at sys j tk" and "\<not> finished tk"
  shows "\<exists>ev sys'. server_step X ord sys ev sys' \<and> event_task ev \<notin> I"
proof (cases "sys_owner sys")
  case None
  then show ?thesis using step_enabled [OF assms(4,5)] assms(3) by blast
next
  case (Some own)
  then obtain tk' where tk': "task_at sys own tk'" "in_log tk'" using lock_inv_owner [OF lock] by blast
  have "own \<notin> I"
  proof
    assume "own \<in> I"
    then obtain s where "task_at sys own (Waiting s)" using idle by blast
    then show False using task_at_unique [OF tk'(1)] tk'(2) by fastforce
  qed
  moreover have "\<not> finished tk'" "\<And>e buf s. tk' \<noteq> Wanting e buf s" using tk'(2) by (cases tk'; simp)+
  ultimately show ?thesis using step_enabled [OF tk'(1)] by blast
qed

lemma run_completes_besides:
  assumes "lock_inv sys" and "\<forall>i \<in> I. \<exists>s. task_at sys i (Waiting s)"
  shows "\<exists>evs sys'. server_run X ord sys evs sys' \<and> (\<forall>ev \<in> set evs. event_task ev \<notin> I)
    \<and> (\<forall>j tk. j \<notin> I \<longrightarrow> task_at sys' j tk \<longrightarrow> finished tk)"
  using assms
proof (induction "system_work sys" arbitrary: sys rule: less_induct)
  case less
  show ?case
  proof (cases "\<forall>j tk. j \<notin> I \<longrightarrow> task_at sys j tk \<longrightarrow> finished tk")
    case True
    then show ?thesis by (intro exI [of _ "[]"] exI [of _ sys]) simp
  next
    case False
    then obtain ev sys1 where ev: "server_step X ord sys ev sys1" "event_task ev \<notin> I"
      using others_step [OF less.prems] by blast
    have "\<forall>i \<in> I. \<exists>s. task_at sys1 i (Waiting s)" using less.prems(2) step_others [OF ev(1)] ev(2) by metis
    from less.hyps [OF step_decreases [OF ev(1)] step_lock_inv [OF ev(1) less.prems(1)] this]
    obtain evs sys2 where "server_run X ord sys1 evs sys2" "\<forall>ev \<in> set evs. event_task ev \<notin> I"
      "\<forall>j tk. j \<notin> I \<longrightarrow> task_at sys2 j tk \<longrightarrow> finished tk" by blast
    with ev show ?thesis by (intro exI [of _ "ev # evs"] exI [of _ sys2]) auto
  qed
qed

section \<open>Every run answers as one sequence of requests\<close>

definition answers_or_reports ::
    "third_party \<Rightarrow> bytes \<Rightarrow> (Key \<Rightarrow> Field option) \<Rightarrow> Response \<Rightarrow> (Key \<Rightarrow> Field option) \<Rightarrow> bool" where
  "answers_or_reports X buf m res m' =
     (answers_message X buf m res m'
      \<or> (\<exists>what. res = Response.ServerError (ascii ''I/O error: '' @ what)) \<and> m' = m)"

fun is_answer :: "event \<Rightarrow> bool" where
  "is_answer (EvAnswer i buf res) = True"
| "is_answer _ = False"

inductive linear :: "third_party \<Rightarrow> event list \<Rightarrow> (Key \<Rightarrow> Field option) \<Rightarrow> (Key \<Rightarrow> Field option) \<Rightarrow> bool"
  for X where
  linear_Nil: "linear X [] m m"
| linear_answer: "answers_or_reports X buf m res m' \<Longrightarrow> linear X evs m' m''
    \<Longrightarrow> linear X (EvAnswer i buf res # evs) m m''"
| linear_other: "\<not> is_answer ev \<Longrightarrow> linear X evs m m' \<Longrightarrow> linear X (ev # evs) m m'"

text \<open>A task in the middle of a write holds the entry of its own request.\<close>

fun write_of :: "task \<Rightarrow> (WalEntry \<times> bytes) option" where
  "write_of (Wanting e buf s) = Some (e, buf)"
| "write_of (Holding e buf s) = Some (e, buf)"
| "write_of (Syncing e buf s) = Some (e, buf)"
| "write_of (Logged e buf s) = Some (e, buf)"
| "write_of _ = None"

definition consistent :: "third_party \<Rightarrow> system \<Rightarrow> bool" where
  "consistent X sys = (hm_wf (st_fields (db_state (sys_db sys)))
     \<and> (\<forall>i tk e buf. task_at sys i tk \<longrightarrow> write_of tk = Some (e, buf)
          \<longrightarrow> (\<exists>req. decode_request X buf = Inr req \<and> logged_entry req = Some e)))"

lemma consistentD:
  "consistent X sys \<Longrightarrow> task_at sys i tk \<Longrightarrow> write_of tk = Some (e, buf)
    \<Longrightarrow> \<exists>req. decode_request X buf = Inr req \<and> logged_entry req = Some e"
  unfolding consistent_def by blast

lemma after_answer_no_write [simp]: "write_of (after_answer res s) = None"
  by (auto simp: after_answer_def split: prod.split sum.split)

lemma hm_wf_apply: "hm_wf m \<Longrightarrow> hm_wf (apply_wal_entry e m)"
  by (cases e) auto

lemma read_request_same: "logged_entry req = None \<Longrightarrow> handle_request ord req db = (Inr res, db') \<Longrightarrow> db' = db"
  using read_request_total [of req ord db] by auto

lemma consistent_put:
  assumes "consistent X sys" and "task_at sys i tk" and "sys_tasks sys' = (sys_tasks sys)[i := tk']"
    and "hm_wf (st_fields (db_state (sys_db sys')))"
    and "\<And>e buf. write_of tk' = Some (e, buf) \<Longrightarrow> \<exists>req. decode_request X buf = Inr req \<and> logged_entry req = Some e"
  shows "consistent X sys'"
  unfolding consistent_def
proof (intro conjI allI impI)
  fix j t e buf
  assume at: "task_at sys' j t" and w: "write_of t = Some (e, buf)"
  show "\<exists>req. decode_request X buf = Inr req \<and> logged_entry req = Some e"
  proof (cases "i = j")
    case True
    then show ?thesis using at w assms(2,3,5) by (auto simp: task_at_def)
  next
    case False
    then have "task_at sys j t" using at assms(3) by (auto simp: task_at_def)
    then show ?thesis using assms(1) w unfolding consistent_def by blast
  qed
qed (rule assms(4))

lemma step_consistent:
  assumes "server_step X ord sys ev sys'" and "consistent X sys"
  shows "consistent X sys'"
proof -
  have wf: "hm_wf (st_fields (db_state (sys_db sys)))" using assms(2) by (simp add: consistent_def)
  from assms(1) show ?thesis
  proof cases
    case (step_read i s buf s' req res db')
    have "db' = sys_db sys" by (rule read_request_same [OF step_read(6,7)])
    then show ?thesis using step_read wf by (intro consistent_put [OF assms(2) step_read(3)]) auto
  next
    case (step_request i s buf s' req e)
    then show ?thesis using wf by (intro consistent_put [OF assms(2) step_request(3)]) auto
  next
    case (step_lock i e buf s)
    then show ?thesis using wf consistentD [OF assms(2) step_lock(3)]
      by (intro consistent_put [OF assms(2) step_lock(3)]) auto
  next
    case (step_write i e buf s wal)
    then show ?thesis using wf consistentD [OF assms(2) step_write(3)]
      by (intro consistent_put [OF assms(2) step_write(3)]) auto
  next
    case (step_sync i e buf s wal)
    then show ?thesis using wf consistentD [OF assms(2) step_sync(3)]
      by (intro consistent_put [OF assms(2) step_sync(3)]) auto
  next
    case (step_apply i e buf s)
    then show ?thesis using hm_wf_apply [OF wf] by (intro consistent_put [OF assms(2) step_apply(3)]) auto
  next
    case (step_close i s r s')
    then show ?thesis using wf by (intro consistent_put [OF assms(2) step_close(3)]) auto
  next
    case (step_panic i s buf s')
    then show ?thesis using wf by (intro consistent_put [OF assms(2) step_panic(3)]) auto
  next
    case (step_invalid i s buf s' e)
    then show ?thesis using wf by (intro consistent_put [OF assms(2) step_invalid(3)]) auto
  next
    case (step_write_error i e buf s err wal)
    then show ?thesis using wf by (intro consistent_put [OF assms(2) step_write_error(3)]) auto
  next
    case (step_sync_error i e buf s err wal)
    then show ?thesis using wf by (intro consistent_put [OF assms(2) step_sync_error(3)]) auto
  qed
qed

lemma apply_answers:
  assumes "decode_request X buf = Inr req" and "logged_entry req = Some e"
  shows "answers_message X buf (hm_get m) (Response.Ok None) (hm_get (apply_wal_entry e m))"
  using assms by (cases req) (auto simp: answers_message_def fun_eq_iff)

lemma write_error_io: "write_error e (Io (io_other what)) = Response.ServerError (ascii ''I/O error: '' @ what)"
  by (cases e) (simp_all add: error_to_string_def io_other_def)

lemma append_write_InlD: "append_write e wal = (Inl f, wal') \<Longrightarrow> \<exists>what. f = Err (Io (io_other what))"
  by (cases rule: append_write_cases [of e wal]) auto

lemma append_sync_InlD: "append_sync wal = (Inl f, wal') \<Longrightarrow> \<exists>what. f = Err (Io (io_other what))"
  by (cases rule: append_sync_cases [of wal]) auto

lemma step_linear:
  assumes "server_step X ord sys ev sys'" and "consistent X sys" and "hash_order ord"
    and "linear X evs (db_fields (sys_db sys')) m"
  shows "linear X (ev # evs) (db_fields (sys_db sys)) m"
  using assms(1)
proof cases
  case (step_invalid i s buf s' e)
  then show ?thesis using assms(4) by (auto intro!: linear_answer simp: answers_or_reports_def answers_message_def)
next
  case (step_read i s buf s' req res db')
  have same: "db' = sys_db sys" by (rule read_request_same [OF step_read(6,7)])
  have "hm_wf (st_fields (db_state (sys_db sys)))" using assms(2) by (simp add: consistent_def)
  from handle_request_any [OF assms(3) this, of req] step_read(5,6,7)
  have "answers_or_reports X buf (db_fields (sys_db sys)) res (db_fields (sys_db sys))"
    by (auto simp: answers_or_reports_def answers_message_def same)
  then show ?thesis using step_read(1,2) assms(4) by (auto intro!: linear_answer simp: same)
next
  case (step_write_error i e buf s err wal)
  obtain what where "err = Io (io_other what)" using append_write_InlD [OF step_write_error(4)] by auto
  then show ?thesis using step_write_error(1,2) assms(4)
    by (auto intro!: linear_answer simp: answers_or_reports_def write_error_io)
next
  case (step_sync_error i e buf s err wal)
  obtain what where "err = Io (io_other what)" using append_sync_InlD [OF step_sync_error(4)] by auto
  then show ?thesis using step_sync_error(1,2) assms(4)
    by (auto intro!: linear_answer simp: answers_or_reports_def write_error_io)
next
  case (step_apply i e buf s)
  obtain req where "decode_request X buf = Inr req" "logged_entry req = Some e"
    using consistentD [OF assms(2) step_apply(3)] by auto
  from apply_answers [OF this] show ?thesis
    using step_apply(1,2) assms(4) by (auto intro!: linear_answer simp: answers_or_reports_def)
qed (use assms(4) in \<open>auto intro: linear_other\<close>)

lemma run_linear:
  "server_run X ord sys evs sys' \<Longrightarrow> consistent X sys \<Longrightarrow> hash_order ord
    \<Longrightarrow> linear X evs (db_fields (sys_db sys)) (db_fields (sys_db sys'))"
proof (induction rule: server_run.induct)
  case (run_Cons sys ev sys' evs sys'')
  then show ?case using step_linear step_consistent by blast
qed (rule linear_Nil)

section \<open>Every connection gets its own answers in order\<close>

fun session :: "nat \<Rightarrow> event list \<Rightarrow> (bytes \<times> Response) list" where
  "session i [] = []"
| "session i (EvAnswer j buf res # evs) = (if i = j then (buf, res) # session i evs else session i evs)"
| "session i (_ # evs) = session i evs"

text \<open>What a task has read but not answered, with what it has not read; and what it has written.\<close>

fun unanswered :: "task \<Rightarrow> bytes" where
  "unanswered (Waiting s) = ts_in s"
| "unanswered (Wanting e buf s) = message_frame buf @ ts_in s"
| "unanswered (Holding e buf s) = message_frame buf @ ts_in s"
| "unanswered (Syncing e buf s) = message_frame buf @ ts_in s"
| "unanswered (Logged e buf s) = message_frame buf @ ts_in s"
| "unanswered (Done r s) = ts_in s"

fun task_stream :: "task \<Rightarrow> TcpStream" where
  "task_stream (Waiting s) = s"
| "task_stream (Wanting e buf s) = s"
| "task_stream (Holding e buf s) = s"
| "task_stream (Syncing e buf s) = s"
| "task_stream (Logged e buf s) = s"
| "task_stream (Done r s) = s"

lemma read_message_split:
  assumes "read_message s = (Message buf, s')"
  shows "ts_in s = message_frame buf @ ts_in s' \<and> ts_out s' = ts_out s \<and> ts_plan s' = ts_plan s"
proof -
  obtain lb s1 where r: "Tcp_read_exact 4 s = (Inr lb, s1)"
      "Tcp_read_exact (unat (from_be_bytes lb :: u32)) s1 = (Inr buf, s')"
    using assms by (auto simp: read_message_def Let_def split: prod.splits sum.splits)
  have lb: "length lb = 4" "ts_in s = lb @ ts_in s1" "s1 = s\<lparr>ts_in := ts_in s1\<rparr>"
    using Tcp_read_InrD [OF r(1)] by auto
  have buf: "length buf = unat (from_be_bytes lb :: u32)" "ts_in s1 = buf @ ts_in s'" "s' = s1\<lparr>ts_in := ts_in s'\<rparr>"
    using Tcp_read_InrD [OF r(2)] by auto
  have "to_be_bytes 4 (of_nat (length buf) :: u32) = lb"
    using to_from_be_bytes [of lb, where 'a = 32] lb(1) by (simp add: buf(1))
  moreover have "ts_out s' = ts_out s1" "ts_plan s' = ts_plan s1" "ts_out s1 = ts_out s" "ts_plan s1 = ts_plan s"
    using arg_cong [OF lb(3), of ts_out] arg_cong [OF lb(3), of ts_plan]
      arg_cong [OF buf(3), of ts_out] arg_cong [OF buf(3), of ts_plan] by simp_all
  ultimately show ?thesis using lb(2) buf(2) by (simp add: message_frame_def)
qed

lemma after_answer_stream:
  "ts_plan s = [] \<Longrightarrow> after_answer res s = Waiting (s\<lparr>ts_out := ts_out s @ framed_response res\<rparr>)"
  by (simp add: after_answer_def Tcp_write_all_def)

lemma step_session:
  assumes "server_step X ord sys ev sys'" and "task_at sys i tk" and "task_at sys' i tk'"
    and "\<not> finished tk'" and "ts_plan (task_stream tk) = []"
  shows "\<not> finished tk \<and> ts_plan (task_stream tk') = []
    \<and> unanswered tk = concat (map (message_frame \<circ> fst) (session i [ev])) @ unanswered tk'
    \<and> ts_out (task_stream tk') = ts_out (task_stream tk) @ concat (map (framed_response \<circ> snd) (session i [ev]))"
  using assms
  by (induction rule: server_step.induct)
    (auto simp: task_at_def after_answer_stream nth_list_update dest!: read_message_split split: if_split_asm)

lemma step_length: "server_step X ord sys ev sys' \<Longrightarrow> length (sys_tasks sys') = length (sys_tasks sys)"
  by (induction rule: server_step.induct) auto

lemma session_Cons: "session i (ev # evs) = session i [ev] @ session i evs"
  by (cases ev) auto

lemma finished_stays:
  "server_step X ord sys ev sys' \<Longrightarrow> task_at sys i tk \<Longrightarrow> finished tk \<Longrightarrow> task_at sys' i tk"
  by (induction rule: server_step.induct) (auto simp: task_at_def nth_list_update)

lemma run_finished_stays:
  "server_run X ord sys evs sys' \<Longrightarrow> task_at sys i tk \<Longrightarrow> finished tk \<Longrightarrow> task_at sys' i tk"
  by (induction rule: server_run.induct) (auto dest: finished_stays)

lemma run_session:
  "server_run X ord sys evs sys' \<Longrightarrow> task_at sys i tk \<Longrightarrow> task_at sys' i tk' \<Longrightarrow> \<not> finished tk' \<Longrightarrow>
   ts_plan (task_stream tk) = [] \<Longrightarrow>
   unanswered tk = concat (map (message_frame \<circ> fst) (session i evs)) @ unanswered tk'
   \<and> ts_out (task_stream tk') = ts_out (task_stream tk) @ concat (map (framed_response \<circ> snd) (session i evs))"
proof (induction arbitrary: tk rule: server_run.induct)
  case (run_Nil sys)
  then show ?case using task_at_unique by fastforce
next
  case (run_Cons sys ev sys1 evs sys2)
  obtain tk1 where tk1: "task_at sys1 i tk1"
    using run_Cons.prems(1) step_length [OF run_Cons.hyps(1)] by (auto simp: task_at_def)
  have "\<not> finished tk1"
    using run_finished_stays [OF run_Cons.hyps(2) tk1] run_Cons.prems(2,3) task_at_unique by blast
  from step_session [OF run_Cons.hyps(1) run_Cons.prems(1) tk1 this run_Cons.prems(4)]
    run_Cons.IH [OF tk1 run_Cons.prems(2,3)]
  show ?case by (simp add: session_Cons [of i ev evs] comp_def)
qed

section \<open>Systems that have just accepted their connections\<close>

definition fresh_system :: "Database \<Rightarrow> TcpStream list \<Rightarrow> system" where
  "fresh_system db ss = \<lparr>sys_db = db, sys_owner = None, sys_tasks = map Waiting ss\<rparr>"

lemma fresh_system_at: "task_at (fresh_system db ss) i tk \<longleftrightarrow> i < length ss \<and> tk = Waiting (ss ! i)"
  by (auto simp: task_at_def fresh_system_def)

lemma fresh_lock_inv: "lock_inv (fresh_system db ss)"
  by (simp add: lock_inv_def fresh_system_def)

lemma run_completes: "\<exists>evs sys. server_run X ord (fresh_system db ss) evs sys \<and> (\<forall>j tk. task_at sys j tk \<longrightarrow> finished tk)"
  using run_completes_besides [OF fresh_lock_inv, of "{}"] by auto

section \<open>Properties\<close>

text \<open>
  C6. In whatever order the tasks of the connections are scheduled, what they answered is a sequential
  history of requests on the map: each answer is the one the map gives at its place in the history, or
  reports an I/O error and changes nothing, and the history ends with the map in memory. Every open
  connection whose writes succeed has got exactly the answers to its own messages, in their order.
\<close>

theorem interleaving_linearizable:
  assumes "hash_order ord" and "hm_wf (st_fields (db_state db))"
    and "server_run X ord (fresh_system db streams) evs sys"
  shows "linear X evs (db_fields db) (db_fields (sys_db sys))
    \<and> (\<forall>i s. task_at sys i (Waiting s) \<longrightarrow> ts_plan (streams ! i) = [] \<longrightarrow>
         ts_in (streams ! i) = concat (map (message_frame \<circ> fst) (session i evs)) @ ts_in s
         \<and> ts_out s = ts_out (streams ! i) @ concat (map (framed_response \<circ> snd) (session i evs)))"
proof (intro conjI allI impI)
  have "consistent X (fresh_system db streams)"
    using assms(2) by (simp add: consistent_def fresh_system_at) (simp add: fresh_system_def)
  from run_linear [OF assms(3) this assms(1)]
  show "linear X evs (db_fields db) (db_fields (sys_db sys))" by (simp add: fresh_system_def)
next
  fix i s
  assume at: "task_at sys i (Waiting s)" and "ts_plan (streams ! i) = []"
  have "length (sys_tasks sys) = length streams"
    using server_run_invariant [of X ord "\<lambda>sys. length (sys_tasks sys) = length streams", OF _ assms(3)]
    by (simp add: step_length fresh_system_def)
  then have "task_at (fresh_system db streams) i (Waiting (streams ! i))"
    using at by (simp add: fresh_system_at) (simp add: task_at_def)
  from run_session [OF assms(3) this at] \<open>ts_plan (streams ! i) = []\<close>
  show "ts_in (streams ! i) = concat (map (message_frame \<circ> fst) (session i evs)) @ ts_in s"
    and "ts_out s = ts_out (streams ! i) @ concat (map (framed_response \<circ> snd) (session i evs))"
    by simp_all
qed

theorem interleaving_linearizable_witness:
  "\<exists>evs sys. server_run (documented_crates (\<lambda>_. 7)) rev (fresh_system
        (fresh_database (ascii ''peach'') \<lparr>wal_file = empty_file True, wal_entries = []\<rparr>)
        [one_request Request.Ping, one_request Request.Keys]) evs sys
    \<and> linear (documented_crates (\<lambda>_. 7)) evs Map.empty (db_fields (sys_db sys))"
proof -
  let ?db = "fresh_database (ascii ''peach'') \<lparr>wal_file = empty_file True, wal_entries = []\<rparr>"
  let ?sys = "fresh_system ?db [one_request Request.Ping, one_request Request.Keys]"
  have wf: "hm_wf (st_fields (db_state ?db))" and empty: "db_fields ?db = Map.empty"
    by (simp_all add: fresh_database_def fun_eq_iff)
  obtain evs sys where "server_run (documented_crates (\<lambda>_. 7)) rev ?sys evs sys"
    using run_completes [of "documented_crates (\<lambda>_. 7)" rev] by blast
  with interleaving_linearizable [OF hash_order_instances(2) wf this] empty show ?thesis by metis
qed

text \<open>
  C33. No connection blocks the others. At any point of any run at most one task is inside \<open>append_entry\<close>,
  and it owns the log's mutex; the run is bounded by what the connections have to read; and whichever
  connections \<open>I\<close> are between two messages, all the others can be run to their ends without a step of
  those: a client that sends nothing holds no lock, and the mutex is given up on every path.
\<close>

theorem connections_complete:
  assumes "server_run X ord (fresh_system db streams) evs sys"
    and "\<forall>i \<in> I. \<exists>s. task_at sys i (Waiting s)"
  shows "length evs \<le> (\<Sum>s\<leftarrow>streams. 5 * length (ts_in s) + 1)
    \<and> (\<forall>i tk. task_at sys i tk \<longrightarrow> in_log tk \<longrightarrow> sys_owner sys = Some i)
    \<and> (\<exists>evs' sys'. server_run X ord sys evs' sys' \<and> (\<forall>ev \<in> set evs'. event_task ev \<notin> I)
         \<and> (\<forall>j tk. j \<notin> I \<longrightarrow> task_at sys' j tk \<longrightarrow> finished tk))"
proof -
  have lock: "lock_inv sys" 
    by (rule run_lock_inv [OF assms(1) fresh_lock_inv])
  show ?thesis
    using run_bounded [OF assms(1)] lock_invD [OF lock] run_completes_besides [OF lock assms(2), of X ord]
    by (auto simp: system_work_def fresh_system_def comp_def)
qed

theorem connections_complete_witness:
  "\<forall>db. \<exists>evs sys. server_run (documented_crates (\<lambda>_. 7)) rev
      (fresh_system db [one_request Request.Ping, one_request (Request.Del (Key [107])), one_request Request.Keys]) evs sys
    \<and> (\<forall>ev \<in> set evs. event_task ev \<noteq> 0) \<and> (\<forall>j tk. j \<noteq> 0 \<longrightarrow> task_at sys j tk \<longrightarrow> finished tk)"
proof
  fix db
  let ?sys = "fresh_system db [one_request Request.Ping, one_request (Request.Del (Key [107])), one_request Request.Keys]"
  have "server_run (documented_crates (\<lambda>_. 7)) rev ?sys [] ?sys" by simp
  moreover have "\<forall>i \<in> {0}. \<exists>s. task_at ?sys i (Waiting s)" by (simp add: fresh_system_at)
  ultimately show "\<exists>evs sys. server_run (documented_crates (\<lambda>_. 7)) rev ?sys evs sys
      \<and> (\<forall>ev \<in> set evs. event_task ev \<noteq> 0) \<and> (\<forall>j tk. j \<noteq> 0 \<longrightarrow> task_at sys j tk \<longrightarrow> finished tk)"
    using connections_complete [of "documented_crates (\<lambda>_. 7)" rev db _ "[]" ?sys "{0}"] by auto
qed

end
