(* ===== verification/Concurrent_Durability.thy ===== *)
theory Concurrent_Durability
  imports Concurrent_Server
begin

text \<open>
  What a restart finds after any interleaving of connections, between two steps or in the middle of
  the write of an entry. A write is in the log before it is in the map, and nothing keeps two writes of
  a key in the same order in both. \<open>exclusive\<close> says of a history that no two writes of one key were under
  way together, logged and not yet answered; then a restart gives the map in memory, except that a write
  under way counts as done. Without it, a restart can give
  an acknowledged value that an acknowledged later write had replaced.
\<close>

section \<open>Histories without overlapping writes of a key\<close>

text \<open>\<open>active\<close> holds the writes under way: in the log and not yet answered.\<close>

fun exclusive :: "(nat \<times> WalEntry) list \<Rightarrow> event list \<Rightarrow> bool" where
  "exclusive active [] = True"
| "exclusive active (EvLog i e # evs) =
     (list_all (\<lambda>(j, e'). WalEntry_key e' \<noteq> WalEntry_key e) active \<and> exclusive ((i, e) # active) evs)"
| "exclusive active (EvAnswer i buf res # evs) = exclusive (filter (\<lambda>(j, e). j \<noteq> i) active) evs"
| "exclusive active (_ # evs) = exclusive active evs"

fun logged_bytes :: "event list \<Rightarrow> nat" where
  "logged_bytes [] = 0"
| "logged_bytes (EvLog i e # evs) = record_size e + logged_bytes evs"
| "logged_bytes (_ # evs) = logged_bytes evs"

fun entry_in_log :: "task \<Rightarrow> WalEntry option" where
  "entry_in_log (Syncing e buf s) = Some e"
| "entry_in_log (Logged e buf s) = Some e"
| "entry_in_log _ = None"

definition under_way :: "system \<Rightarrow> (nat \<times> WalEntry) set" where
  "under_way sys = {(i, e). \<exists>tk. task_at sys i tk \<and> entry_in_log tk = Some e}"

text \<open>
  The log is ahead of the map exactly by the writes under way, of which no two have the same key.
\<close>

definition coherent :: "third_party \<Rightarrow> bytes \<Rightarrow> slot list \<Rightarrow> system \<Rightarrow> bool" where
  "coherent X nm ss sys =
     (db_rep X nm (sys_db sys) ss \<and> consistent X sys
      \<and> (\<forall>i e j e'. (i, e) \<in> under_way sys \<longrightarrow> (j, e') \<in> under_way sys
           \<longrightarrow> WalEntry_key e = WalEntry_key e' \<longrightarrow> i = j \<and> e = e')
      \<and> (\<forall>i e. (i, e) \<in> under_way sys
           \<longrightarrow> replayed (db_log (sys_db sys)) ss (WalEntry_key e) = snd (entry_update e))
      \<and> (\<forall>k. k \<notin> (WalEntry_key \<circ> snd) ` under_way sys
           \<longrightarrow> replayed (db_log (sys_db sys)) ss k = db_fields (sys_db sys) k))"

lemma under_way_put:
  assumes "task_at sys i tk" and "sys_tasks sys' = (sys_tasks sys)[i := tk']"
  shows "under_way sys' = {(j, e) \<in> under_way sys. j \<noteq> i} \<union> {(i, e) | e. entry_in_log tk' = Some e}"
  using assms by (auto simp: under_way_def task_at_def nth_list_update split: if_split_asm)

lemma under_way_iff: "task_at sys i tk \<Longrightarrow> (i, e) \<in> under_way sys \<longleftrightarrow> entry_in_log tk = Some e"
  by (auto simp: under_way_def task_at_def)

lemma under_way_functional: "(i, e) \<in> under_way sys \<Longrightarrow> (i, e') \<in> under_way sys \<Longrightarrow> e = e'"
  by (auto simp: under_way_def task_at_def)

lemma after_answer_not_in_log [simp]: "entry_in_log (after_answer res s) = None"
  by (auto simp: after_answer_def split: prod.split sum.split)

lemma replayed_append:
  "replayed (es @ [e]) ss k = (if k = WalEntry_key e then snd (entry_update e) else replayed es ss k)"
  by (cases e) (auto simp: replayed_def)

lemma apply_wal_entry_get:
  "hm_get (apply_wal_entry e m) k = (if k = WalEntry_key e then snd (entry_update e) else hm_get m k)"
  by (cases e) auto

lemma accepted_entry_storable:
  assumes "decode_request X buf = Inr req" and "logged_entry req = Some e"
  shows "storable_entry e"
  using decode_request_storable [OF assms(1)] assms(2) by (cases req) auto

lemma under_way_same:
  assumes "task_at sys i tk" and "sys_tasks sys' = (sys_tasks sys)[i := tk']" and "entry_in_log tk' = entry_in_log tk"
  shows "under_way sys' = under_way sys"
  unfolding under_way_put [OF assms(1,2)] using under_way_iff [OF assms(1)] assms(3) by auto

text \<open>A step that changes neither the database nor the writes under way, a write's two halves.\<close>

lemma coherent_idle:
  assumes "coherent X nm ss sys" and "under_way sys' = under_way sys" and "consistent X sys'"
    and "db_rep X nm (sys_db sys') ss" and "db_log (sys_db sys') = db_log (sys_db sys)"
    and "db_fields (sys_db sys') = db_fields (sys_db sys)"
  shows "coherent X nm ss sys'"
  using assms unfolding coherent_def by simp

lemma coherent_log:
  assumes coh: "coherent X nm ss sys" and new: "under_way sys' = insert (i, e) (under_way sys)"
    and "consistent X sys'" and "db_rep X nm (sys_db sys') ss"
    and log: "db_log (sys_db sys') = db_log (sys_db sys) @ [e]" and fld: "db_fields (sys_db sys') = db_fields (sys_db sys)"
    and fresh: "\<And>j e'. (j, e') \<in> under_way sys \<Longrightarrow> WalEntry_key e' \<noteq> WalEntry_key e"
  shows "coherent X nm ss sys'"
  unfolding coherent_def
proof (intro conjI allI impI)
  fix j e1 j' e2
  assume "(j, e1) \<in> under_way sys'" "(j', e2) \<in> under_way sys'" "WalEntry_key e1 = WalEntry_key e2"
  then show "j = j'" "e1 = e2" using coh fresh unfolding coherent_def new by (metis insertE prod.inject)+
next
  fix j e1
  assume "(j, e1) \<in> under_way sys'"
  then show "replayed (db_log (sys_db sys')) ss (WalEntry_key e1) = snd (entry_update e1)"
    using coh fresh unfolding coherent_def new log by (auto simp: replayed_append)
next
  fix k
  assume "k \<notin> (WalEntry_key \<circ> snd) ` under_way sys'"
  then show "replayed (db_log (sys_db sys')) ss k = db_fields (sys_db sys') k"
    using coh unfolding coherent_def new log fld by (auto simp: replayed_append)
qed (use assms in simp_all)

lemma coherent_apply:
  assumes coh: "coherent X nm ss sys" and mem: "(i, e) \<in> under_way sys"
    and new: "under_way sys' = under_way sys - {(i, e)}"
    and "consistent X sys'" and "db_rep X nm (sys_db sys') ss" and log: "db_log (sys_db sys') = db_log (sys_db sys)"
    and fld: "\<And>k. db_fields (sys_db sys') k
      = (if k = WalEntry_key e then snd (entry_update e) else db_fields (sys_db sys) k)"
  shows "coherent X nm ss sys'"
  unfolding coherent_def
proof (intro conjI allI impI)
  fix j e1 j' e2
  assume "(j, e1) \<in> under_way sys'" "(j', e2) \<in> under_way sys'" "WalEntry_key e1 = WalEntry_key e2"
  then show "j = j'" "e1 = e2" using coh unfolding coherent_def new by (metis DiffD1)+
next
  fix j e1
  assume "(j, e1) \<in> under_way sys'"
  then show "replayed (db_log (sys_db sys')) ss (WalEntry_key e1) = snd (entry_update e1)"
    using coh unfolding coherent_def new log by auto
next
  fix k
  assume "k \<notin> (WalEntry_key \<circ> snd) ` under_way sys'"
  then have "k = WalEntry_key e \<or> k \<notin> (WalEntry_key \<circ> snd) ` under_way sys" using new by auto
  then show "replayed (db_log (sys_db sys')) ss k = db_fields (sys_db sys') k"
    using coh mem unfolding coherent_def fld log by auto
qed (use assms in simp_all)

lemma filter_not_active:
  assumes "set active = under_way sys" and "task_at sys i tk" and "entry_in_log tk = None"
  shows "filter (\<lambda>(j, e). j \<noteq> i) active = active"
  using under_way_iff [OF assms(2)] assms(1,3) by (fastforce simp: filter_id_conv)

lemma step_coherent:
  assumes "server_step X ord sys ev sys'" and coh: "coherent X nm ss sys"
    and act: "set active = under_way sys" and ex: "exclusive active (ev # evs)"
    and room: "length (f_bytes (db_file (sys_db sys))) + log_size (sys_db sys) + logged_bytes (ev # evs) < 2 ^ 64"
  shows "coherent X nm ss sys' \<and> (\<exists>active'. set active' = under_way sys' \<and> exclusive active' evs)
    \<and> length (f_bytes (db_file (sys_db sys'))) + log_size (sys_db sys') + logged_bytes evs < 2 ^ 64"
proof -
  have rep: "db_rep X nm (sys_db sys) ss" and cons: "consistent X sys" using coh by (simp_all add: coherent_def)
  have cons': "consistent X sys'" by (rule step_consistent [OF assms(1) cons])
  have idle: ?thesis
    if "task_at sys i tk" "sys_tasks sys' = (sys_tasks sys)[i := tk']" "entry_in_log tk' = entry_in_log tk"
      "sys_db sys' = sys_db sys" "exclusive active evs" "logged_bytes (ev # evs) = logged_bytes evs" for i tk tk'
    using coherent_idle [OF coh under_way_same [OF that(1-3)] cons'] under_way_same [OF that(1-3)] that(4-6) act room rep
    by auto
  show ?thesis
    using assms(1)
  proof cases
    case (step_close i s r s')
    then show ?thesis using ex by (intro idle [OF step_close(3)]) auto
  next
    case (step_panic i s buf s')
    then show ?thesis using ex by (intro idle [OF step_panic(3)]) auto
  next
    case (step_invalid i s buf s' e)
    then show ?thesis using ex filter_not_active [OF act step_invalid(3)] by (intro idle [OF step_invalid(3)]) auto
  next
    case (step_read i s buf s' req res db')
    have "db' = sys_db sys" by (rule read_request_same [OF step_read(6,7)])
    with step_read show ?thesis
      using ex filter_not_active [OF act step_read(3)] by (intro idle [OF step_read(3)]) auto
  next
    case (step_request i s buf s' req e)
    then show ?thesis using ex by (intro idle [OF step_request(3)]) auto
  next
    case (step_lock i e buf s)
    then show ?thesis using ex by (intro idle [OF step_lock(3)]) auto
  next
    case (step_write_error i e buf s err wal)
    then show ?thesis using append_write_ok [OF db_repD(3) [OF rep], of e] by simp
  next
    case (step_sync_error i e buf s err wal)
    then show ?thesis using append_sync_ok [OF db_repD(3) [OF rep]] by simp
  next
    case (step_sync i e buf s wal)
    have wal: "wal_entries wal = db_log (sys_db sys)" "db_rep X nm ((sys_db sys)\<lparr>db_wal := wal\<rparr>) ss"
      using db_rep_sync [OF rep step_sync(4)] by auto
    have same: "under_way sys' = under_way sys"
      by (rule under_way_same [OF step_sync(3), where tk' = "Logged e buf s"]) (use step_sync in simp_all)
    have "coherent X nm ss sys'"
      by (rule coherent_idle [OF coh same cons']) (use wal step_sync in simp_all)
    then show ?thesis using same act ex room step_sync(1,2) wal(1) by (auto simp: log_size_def)
  next
    case (step_write i e buf s wal)
    have new: "under_way sys' = insert (i, e) (under_way sys)"
      using under_way_put [OF step_write(3), of sys' "Syncing e buf s"] step_write(2) under_way_iff [OF step_write(3)]
      by auto
    obtain req where "decode_request X buf = Inr req" "logged_entry req = Some e"
      using consistentD [OF cons step_write(3)] by auto
    then have st: "storable_entry e" by (rule accepted_entry_storable)
    have wal: "wal_entries wal = db_log (sys_db sys) @ [e]" "db_rep X nm ((sys_db sys)\<lparr>db_wal := wal\<rparr>) ss"
      using db_rep_write [OF rep st _ step_write(4)] room step_write(1) by auto
    have "coherent X nm ss sys'"
      by (rule coherent_log [OF coh new cons'])
        (use wal step_write(1,2) act ex in \<open>auto simp: list_all_iff\<close>)
    moreover have "set ((i, e) # active) = under_way sys'" "exclusive ((i, e) # active) evs"
      using act ex step_write(1) new by simp_all
    ultimately show ?thesis
      using room step_write(1,2) wal(1) by (intro conjI exI [of _ "(i, e) # active"]) (auto simp: log_size_def)
  next
    case (step_apply i e buf s)
    have mem: "(i, e) \<in> under_way sys" using step_apply(3) by (auto simp: under_way_def)
    have "under_way sys' = {(j, e) \<in> under_way sys. j \<noteq> i}"
      using under_way_put [OF step_apply(3), of sys'] step_apply(2) by simp
    then have new: "under_way sys' = under_way sys - {(i, e)}" using under_way_functional [OF mem] by auto
    have "coherent X nm ss sys'"
      by (rule coherent_apply [OF coh mem new cons'])
        (use db_rep_update_fields [OF rep, of "apply_wal_entry e"] db_repD(8) [OF rep] step_apply(2)
         in \<open>auto simp: apply_wal_entry_get hm_wf_apply\<close>)
    moreover have "set (filter (\<lambda>(j, e). j \<noteq> i) active) = under_way sys'"
      using act new under_way_functional [OF mem] by auto
    ultimately show ?thesis
      using ex room step_apply(1,2)
      by (intro conjI exI [of _ "filter (\<lambda>(j, e). j \<noteq> i) active"]) (auto simp: log_size_def)
  qed
qed

lemma run_coherent:
  "server_run X ord sys evs sys' \<Longrightarrow> coherent X nm ss sys \<Longrightarrow> set active = under_way sys \<Longrightarrow> exclusive active evs
    \<Longrightarrow> length (f_bytes (db_file (sys_db sys))) + log_size (sys_db sys) + logged_bytes evs < 2 ^ 64
    \<Longrightarrow> coherent X nm ss sys'"
proof (induction arbitrary: active rule: server_run.induct)
  case (run_Cons sys ev sys1 evs sys2)
  from step_coherent [OF run_Cons.hyps(1) run_Cons.prems] run_Cons.IH show ?case by blast
qed simp

section \<open>Restarting after a run\<close>

lemma fresh_coherent:
  assumes "db_clean X nm db ss"
  shows "coherent X nm ss (fresh_system db streams)" and "under_way (fresh_system db streams) = {}"
proof -
  have idle: "under_way (fresh_system db streams) = {}" by (auto simp: under_way_def fresh_system_at)
  have "db_rep X nm db ss" and fld: "db_fields db = replayed (db_log db) ss" using assms by (simp_all add: db_clean_def)
  then have "consistent X (fresh_system db streams)"
    using db_repD(8) by (simp add: consistent_def fresh_system_at) (simp add: fresh_system_def)
  then show "coherent X nm ss (fresh_system db streams)"
    using \<open>db_rep X nm db ss\<close> fld by (simp add: coherent_def idle) (simp add: fresh_system_def)
  show "under_way (fresh_system db streams) = {}" by (rule idle)
qed

lemma coherent_restart:
  assumes "byteorder X" and "length name \<le> 64" and "coherent X nm ss sys" and "\<forall>s \<in> set ss. rebuildable_slot s"
  shows "\<exists>db2. Database_restart X name (sys_db sys) = Inr db2
    \<and> (\<forall>k. db_fields db2 k = db_fields (sys_db sys) k
         \<or> (\<exists>i e. (i, e) \<in> under_way sys \<and> WalEntry_key e = k \<and> db_fields db2 k = snd (entry_update e)))"
proof -
  have rep: "db_rep X nm (sys_db sys) ss" using assms(3) by (simp add: coherent_def)
  obtain db2 where db2: "Database_restart X name (sys_db sys) = Inr db2"
    "db_fields db2 = replayed (db_log (sys_db sys)) ss"
    using Database_restart_ok [OF assms(1) rep assms(2,4)] by blast
  have "db_fields db2 k = db_fields (sys_db sys) k
    \<or> (\<exists>i e. (i, e) \<in> under_way sys \<and> WalEntry_key e = k \<and> db_fields db2 k = snd (entry_update e))" for k
  proof (cases "k \<in> (WalEntry_key \<circ> snd) ` under_way sys")
    case True
    then obtain i e where "(i, e) \<in> under_way sys" "WalEntry_key e = k" by auto
    moreover from this(1) have "db_fields db2 (WalEntry_key e) = snd (entry_update e)"
      using assms(3) unfolding coherent_def db2(2) by blast
    ultimately show ?thesis by blast
  next
    case False
    then show ?thesis using assms(3) unfolding coherent_def db2(2) by blast
  qed
  with db2(1) show ?thesis by blast
qed

text \<open>A crash in the middle of the write of an entry: the file ends with a part of it.\<close>

definition torn_log :: "nat \<Rightarrow> WalEntry \<Rightarrow> Database \<Rightarrow> Database" where
  "torn_log n e db =
     db\<lparr>db_wal := (db_wal db)\<lparr>wal_file := (wal_file (db_wal db))
       \<lparr>f_bytes := f_bytes (wal_file (db_wal db)) @ take n (wal_entry_bytes e)\<rparr>\<rparr>\<rparr>"

lemma torn_log_restart:
  assumes "byteorder X" and "length name \<le> 64" and rep: "db_rep X nm db ss" and "storable_entry e"
    and "0 < n" and "n < length (wal_entry_bytes e)"
  shows "Database_restart X name (torn_log n e db) = Inl (Err (Io eof_error))"
proof -
  have "Wal_open X (Inr (reopened (wal_file (db_wal (torn_log n e db))))) = Inl (Err (Io eof_error))"
    by (rule Wal_open_prefix_fails [OF assms(1), where es = "db_log db" and e = e and n = n])
      (use db_repD(4) [OF rep] assms(4-6) in \<open>auto simp: torn_log_def wal_inv_def\<close>)
  then show ?thesis
    using assms(2) by (simp add: Database_restart_def Database_open_def is_new_file_reopened torn_log_def)
qed

section \<open>Writes of one connection after the other, and at once\<close>

lemma read_one_request:
  "length (request_bytes req) < 2 ^ 32 \<Longrightarrow> read_message (one_request req)
     = (Message (request_bytes req), (one_request req)\<lparr>ts_in := []\<rparr>)"
  using read_message_frame [of "one_request req" "request_bytes req" "[]"] by (simp add: one_request_def)

text \<open>A write up to the point where it gives the mutex back.\<close>

lemma run_write:
  assumes X: "byteorder X" and rep: "db_rep X nm (sys_db sys) ss"
    and at: "task_at sys i (Waiting (one_request (Request.Set k f)))" and free: "sys_owner sys = None"
    and st: "storable_key k" "storable_field f" and len: "length (request_bytes (Request.Set k f)) < 2 ^ 32"
    and room: "length (f_bytes (db_file (sys_db sys))) + log_size (sys_db sys) + record_size (WalEntry.Set k f) < 2 ^ 64"
  shows "\<exists>w. server_run X ord sys
      [EvRequest i (WalEntry.Set k f), EvLock i, EvLog i (WalEntry.Set k f), EvSync i]
      (sys\<lparr>sys_db := (sys_db sys)\<lparr>db_wal := w\<rparr>, sys_owner := None, sys_tasks := (sys_tasks sys)
        [i := Logged (WalEntry.Set k f) (request_bytes (Request.Set k f)) ((one_request (Request.Set k f))\<lparr>ts_in := []\<rparr>)]\<rparr>)
    \<and> wal_entries w = db_log (sys_db sys) @ [WalEntry.Set k f] \<and> db_rep X nm ((sys_db sys)\<lparr>db_wal := w\<rparr>) ss"
proof -
  let ?req = "Request.Set k f" and ?e = "WalEntry.Set k f"
  let ?b = "request_bytes ?req" and ?s = "(one_request ?req)\<lparr>ts_in := []\<rparr>"
  have dec: "decode_request X ?b = Inr ?req"
    using byteorder.decode_request_bytes [OF X, of ?req "[]"] st by simp
  obtain r1 w1 where w1: "append_write ?e (db_wal (sys_db sys)) = (r1, w1)" by force
  then have w1': "r1 = Inr ()" "wal_entries w1 = db_log (sys_db sys) @ [?e]" "db_rep X nm ((sys_db sys)\<lparr>db_wal := w1\<rparr>) ss"
    using db_rep_write [OF rep _ room w1] st by simp_all
  obtain r2 w2 where w2: "append_sync w1 = (r2, w2)" by force
  then have w2': "r2 = Inr ()" "wal_entries w2 = wal_entries w1" "db_rep X nm ((sys_db sys)\<lparr>db_wal := w2\<rparr>) ss"
    using db_rep_sync [OF w1'(3), of r2 w2] by simp_all
  have i: "i < length (sys_tasks sys)" using at by (simp add: task_at_def)
  let ?s1 = "put_task i (Wanting ?e ?b ?s) sys"
  have 1: "server_step X ord sys (EvRequest i ?e) ?s1"
    by (rule step_request [OF at read_one_request [OF len] dec]) simp
  let ?s2 = "put_task i (Holding ?e ?b ?s) (?s1\<lparr>sys_owner := Some i\<rparr>)"
  have 2: "server_step X ord ?s1 (EvLock i) ?s2"
    by (rule step_lock) (use i free in simp_all)
  let ?s3 = "put_task i (Syncing ?e ?b ?s) (put_log w1 ?s2)"
  have 3: "server_step X ord ?s2 (EvLog i ?e) ?s3"
    by (rule step_write) (use i w1 w1'(1) in simp_all)
  let ?s4 = "put_task i (Logged ?e ?b ?s) (put_log w2 ?s3\<lparr>sys_owner := None\<rparr>)"
  have 4: "server_step X ord ?s3 (EvSync i) ?s4"
    by (rule step_sync) (use i w2 w2'(1) in simp_all)
  have "?s4 = sys\<lparr>sys_db := (sys_db sys)\<lparr>db_wal := w2\<rparr>, sys_owner := None,
      sys_tasks := (sys_tasks sys)[i := Logged ?e ?b ?s]\<rparr>"
    by (simp add: put_task_def put_log_def)
  with 1 2 3 4 w1'(2) w2'(2,3) show ?thesis by (intro exI [of _ w2]) (simp, blast)
qed

lemma step_apply_put:
  assumes "task_at sys i (Logged e buf s)" and "ts_plan s = []"
  shows "server_step X ord sys (EvAnswer i buf (Response.Ok None))
    (put_task i (Waiting (s\<lparr>ts_out := ts_out s @ framed_response (Response.Ok None)\<rparr>))
      (sys\<lparr>sys_db := update_fields (apply_wal_entry e) (sys_db sys)\<rparr>))"
  using step_apply [OF assms(1)] assms(2) by (simp add: after_answer_stream)

text \<open>
  The first connection logs first and writes the map last: the log ends with the second value, the map
  with the first.
\<close>

definition race :: "Key \<Rightarrow> Field \<Rightarrow> Field \<Rightarrow> event list" where
  "race k f g =
     [EvRequest 0 (WalEntry.Set k f), EvLock 0, EvLog 0 (WalEntry.Set k f), EvSync 0,
      EvRequest 1 (WalEntry.Set k g), EvLock 1, EvLog 1 (WalEntry.Set k g), EvSync 1,
      EvAnswer 1 (request_bytes (Request.Set k g)) (Response.Ok None),
      EvAnswer 0 (request_bytes (Request.Set k f)) (Response.Ok None)]"

lemma racing_run:
  assumes X: "byteorder X" and rep: "db_rep X nm db ss"
    and st: "storable_key k" "storable_field f" "storable_field g"
    and len: "\<And>h. h \<in> {f, g} \<Longrightarrow> length (request_bytes (Request.Set k h)) < 2 ^ 32"
    and room: "length (f_bytes (db_file db)) + log_size db + record_size (WalEntry.Set k f) + record_size (WalEntry.Set k g) < 2 ^ 64"
  shows "\<exists>t. server_run X ord (fresh_system db [one_request (Request.Set k f), one_request (Request.Set k g)]) (race k f g) t
    \<and> db_rep X nm (sys_db t) ss \<and> db_log (sys_db t) = db_log db @ [WalEntry.Set k f, WalEntry.Set k g]
    \<and> db_fields (sys_db t) k = Some f"
proof -
  let ?rf = "Request.Set k f" and ?rg = "Request.Set k g" and ?e = "WalEntry.Set k f" and ?e' = "WalEntry.Set k g"
  let ?s0 = "fresh_system db [one_request ?rf, one_request ?rg]"
  let ?sf = "(one_request ?rf)\<lparr>ts_in := []\<rparr>" and ?sg = "(one_request ?rg)\<lparr>ts_in := []\<rparr>"
  have fresh: "sys_db ?s0 = db" "sys_owner ?s0 = None" "sys_tasks ?s0 = [Waiting (one_request ?rf), Waiting (one_request ?rg)]"
    by (simp_all add: fresh_system_def)
  obtain w1 where w1: "server_run X ord ?s0 [EvRequest 0 ?e, EvLock 0, EvLog 0 ?e, EvSync 0]
      (?s0\<lparr>sys_db := db\<lparr>db_wal := w1\<rparr>, sys_owner := None, sys_tasks := [Logged ?e (request_bytes ?rf) ?sf, Waiting (one_request ?rg)]\<rparr>)"
    "wal_entries w1 = db_log db @ [?e]" "db_rep X nm (db\<lparr>db_wal := w1\<rparr>) ss"
    using run_write [of X nm ?s0 ss 0 k f ord] X rep st len room fresh by (auto simp: fresh_system_at)
  let ?s1 = "?s0\<lparr>sys_db := db\<lparr>db_wal := w1\<rparr>, sys_owner := None, sys_tasks := [Logged ?e (request_bytes ?rf) ?sf, Waiting (one_request ?rg)]\<rparr>"
  have at1: "task_at ?s1 1 (Waiting (one_request ?rg))" by (simp add: task_at_def)
  have room1: "length (f_bytes (db_file (sys_db ?s1))) + log_size (sys_db ?s1) + record_size ?e' < 2 ^ 64"
    using room w1(2) by (simp add: log_size_def)
  obtain w2 where w2: "server_run X ord ?s1 [EvRequest 1 ?e', EvLock 1, EvLog 1 ?e', EvSync 1]
      (?s1\<lparr>sys_db := db\<lparr>db_wal := w2\<rparr>, sys_owner := None,
        sys_tasks := [Logged ?e (request_bytes ?rf) ?sf, Logged ?e' (request_bytes ?rg) ?sg]\<rparr>)"
    "wal_entries w2 = db_log db @ [?e, ?e']" "db_rep X nm (db\<lparr>db_wal := w2\<rparr>) ss"
    using run_write [OF X _ at1 _ st(1,3) _ room1, of nm ss ord] w1(2,3) len by auto
  let ?s2 = "?s1\<lparr>sys_db := db\<lparr>db_wal := w2\<rparr>, sys_owner := None,
      sys_tasks := [Logged ?e (request_bytes ?rf) ?sf, Logged ?e' (request_bytes ?rg) ?sg]\<rparr>"
  let ?s3 = "put_task 1 (Waiting (?sg\<lparr>ts_out := ts_out ?sg @ framed_response (Response.Ok None)\<rparr>))
      (?s2\<lparr>sys_db := update_fields (apply_wal_entry ?e') (sys_db ?s2)\<rparr>)"
  have 3: "server_step X ord ?s2 (EvAnswer 1 (request_bytes ?rg) (Response.Ok None)) ?s3"
    by (rule step_apply_put) (simp_all add: task_at_def one_request_def)
  let ?t = "put_task 0 (Waiting (?sf\<lparr>ts_out := ts_out ?sf @ framed_response (Response.Ok None)\<rparr>))
      (?s3\<lparr>sys_db := update_fields (apply_wal_entry ?e) (sys_db ?s3)\<rparr>)"
  have 4: "server_step X ord ?s3 (EvAnswer 0 (request_bytes ?rf) (Response.Ok None)) ?t"
    by (rule step_apply_put) (simp_all add: task_at_def one_request_def)
  have "server_run X ord ?s2 [EvAnswer 1 (request_bytes ?rg) (Response.Ok None), EvAnswer 0 (request_bytes ?rf) (Response.Ok None)] ?t"
    by (rule run_Cons [OF 3 run_Cons [OF 4 run_Nil]])
  from run_append [OF w1(1) run_append [OF w2(1) this]]
  have run: "server_run X ord ?s0 (race k f g) ?t" by (simp only: race_def append_Cons append_Nil)
  have "db_rep X nm (update_fields (apply_wal_entry ?e) (update_fields (apply_wal_entry ?e') (db\<lparr>db_wal := w2\<rparr>))) ss"
    using db_repD(8) [OF rep]
    by (intro db_rep_update_fields w2(3)) (simp_all add: hm_wf_apply del: apply_wal_entry.simps)
  with run w2(2) show ?thesis by (intro exI [of _ ?t] conjI) simp_all
qed

section \<open>Properties\<close>

text \<open>
  C7. A crash during any run in which no two writes of one key are under way (logged and not yet
  answered) at once and no call on a file fails. Between two steps: the database opens again, and every
  key has the value in memory at the crash, or that of a write of it that is in the log but not yet
  answered; so no acknowledged write is lost. While a connection writes its entry to the log, with a part of it written: the database
  cannot be opened, since replay does not drop an incomplete entry.
\<close>

theorem restart_after_concurrent_writes:
  assumes "byteorder X" and "length name \<le> 64" and "admissible_all ops empty_disk"
    and "and_then (new_database X name) (run_ops X name ops) = Inr db"
    and "server_run X ord (fresh_system db streams) evs sys" and "exclusive [] evs"
    and "used (fold op_disk ops empty_disk) + logged_bytes evs < 2 ^ 64"
  shows "(\<exists>db2. Database_restart X name (sys_db sys) = Inr db2
      \<and> (\<forall>k. db_fields db2 k = db_fields (sys_db sys) k
           \<or> (\<exists>i e. (i, e) \<in> under_way sys \<and> WalEntry_key e = k \<and> db_fields db2 k = snd (entry_update e))))
    \<and> (\<forall>i e buf s n. task_at sys i (Holding e buf s) \<longrightarrow> 0 < n \<longrightarrow> n < length (wal_entry_bytes e)
         \<longrightarrow> Database_restart X name (torn_log n e (sys_db sys)) = Inl (Err (Io eof_error)))"
proof -
  obtain db0 where db0: "new_database X name = Inr db0" "tracks X (name_field name) db0 Map.empty empty_disk"
    using new_database_tracks [OF assms(2)] by blast
  obtain ss where ss: "db_clean X (name_field name) db ss"
    "length (f_bytes (db_file db)) + log_size db \<le> used (fold op_disk ops empty_disk)"
    using run_all [OF assms(1,2) db0(2) assms(3)] assms(4) db0(1) by (auto simp: tracks_def)
  have coh: "coherent X (name_field name) ss sys"
    by (rule run_coherent [OF assms(5) fresh_coherent(1) [OF ss(1)] _ assms(6)])
      (use fresh_coherent(2) [OF ss(1)] ss(2) assms(7) in \<open>simp_all add: fresh_system_def\<close>)
  then have rep: "db_rep X (name_field name) (sys_db sys) ss" and cons: "consistent X sys"
    by (simp_all add: coherent_def)
  have st: "storable_entry e" if "task_at sys i (Holding e buf s)" for i e buf s
    using consistentD [OF cons that] accepted_entry_storable by auto
  show ?thesis
    using coherent_restart [OF assms(1,2) coh] ss(1) torn_log_restart [OF assms(1,2) rep] st
    by (simp add: db_clean_def)
qed

theorem restart_after_concurrent_writes_witness:
  "\<exists>db sys db2. new_database (documented_crates (\<lambda>_. 7)) (ascii ''peach'') = Inr db
    \<and> server_run (documented_crates (\<lambda>_. 7)) rev (fresh_system db [one_request (Request.Set (Key [107]) (Field.Raw [1]))])
        [EvRequest 0 (WalEntry.Set (Key [107]) (Field.Raw [1])), EvLock 0,
         EvLog 0 (WalEntry.Set (Key [107]) (Field.Raw [1])), EvSync 0] sys
    \<and> under_way sys = {(0, WalEntry.Set (Key [107]) (Field.Raw [1]))}
    \<and> Database_restart (documented_crates (\<lambda>_. 7)) (ascii ''peach'') (sys_db sys) = Inr db2
    \<and> (\<forall>k. db_fields db2 k = db_fields (sys_db sys) k \<or> k = Key [107] \<and> db_fields db2 k = Some (Field.Raw [1]))"
proof -
  let ?X = "documented_crates (\<lambda>_. 7)" and ?k = "Key [107]" and ?f = "Field.Raw [1]"
  let ?e = "WalEntry.Set ?k ?f" and ?req = "Request.Set ?k ?f"
  let ?evs = "[EvRequest 0 ?e, EvLock 0, EvLog 0 ?e, EvSync 0]"
  obtain db ss where db: "new_database ?X (ascii ''peach'') = Inr db" "db_rep ?X (name_field (ascii ''peach'')) db ss"
      "length (f_bytes (db_file db)) + log_size db \<le> used empty_disk"
    using new_database_tracks [of "ascii ''peach''" ?X] by (auto simp: tracks_def db_clean_def)
  let ?s0 = "fresh_system db [one_request ?req]"
  have small: "storable_key ?k" "storable_field ?f" "length (request_bytes ?req) < 2 ^ 32"
    "used empty_disk + record_size ?e < 2 ^ 64"
    by (simp_all add: storable_key_def storable_field_def Key_len_def empty_disk_def)
  have "db_rep ?X (name_field (ascii ''peach'')) (sys_db ?s0) ss" "sys_owner ?s0 = None" "task_at ?s0 0 (Waiting (one_request ?req))"
    "length (f_bytes (db_file (sys_db ?s0))) + log_size (sys_db ?s0) + record_size ?e < 2 ^ 64"
    using db(2,3) small(4) by (simp_all add: fresh_system_def task_at_def)
  from run_write [OF documented.byteorder_axioms this(1,3,2) small(1-3) this(4), of rev] obtain w where
    run: "server_run ?X rev ?s0 ?evs (?s0\<lparr>sys_db := (sys_db ?s0)\<lparr>db_wal := w\<rparr>, sys_owner := None, sys_tasks := (sys_tasks ?s0)
        [0 := Logged ?e (request_bytes ?req) ((one_request ?req)\<lparr>ts_in := []\<rparr>)]\<rparr>)" (is "server_run _ _ _ _ ?t") by blast
  have under: "under_way ?t = {(0, ?e)}" by (auto simp: under_way_def task_at_def fresh_system_def)
  have "length (ascii ''peach'') \<le> 64" "admissible_all [] empty_disk" "exclusive [] ?evs"
    "used (fold op_disk [] empty_disk) + logged_bytes ?evs < 2 ^ 64"
    using small(4) by simp_all
  from restart_after_concurrent_writes [OF documented.byteorder_axioms this(1,2) _ run this(3,4)] db(1)
  obtain db2 where "Database_restart ?X (ascii ''peach'') (sys_db ?t) = Inr db2"
    "\<forall>k. db_fields db2 k = db_fields (sys_db ?t) k
      \<or> (\<exists>i e. (i, e) \<in> under_way ?t \<and> WalEntry_key e = k \<and> db_fields db2 k = snd (entry_update e))" by auto
  note db2 = this
  have "db_fields db2 k = db_fields (sys_db ?t) k \<or> k = ?k \<and> db_fields db2 k = Some ?f" for k
    using db2(2) [rule_format, of k] unfolding under by (elim disjE exE conjE) simp_all
  then have "\<forall>k. db_fields db2 k = db_fields (sys_db ?t) k \<or> k = ?k \<and> db_fields db2 k = Some ?f" by (rule allI)
  with db(1) run under db2(1) show ?thesis by (intro exI conjI)
qed

text \<open>
  C36. \<open>set\<close> gives up the log's mutex before it takes the state's lock. Two connections that set one
  key at the same time can both be answered \<open>Ok\<close> while the log and the map take them in opposite orders:
  the value every client reads then changes at the next restart.
\<close>

theorem racing_writes_diverge:
  assumes "byteorder X" and "length name \<le> 64" and "admissible_all ops empty_disk"
    and "storable_key k" and "storable_field f" and "storable_field g"
    and "8 + Key_len k + length (bytes_from_field f) < 2 ^ 32" and "8 + Key_len k + length (bytes_from_field g) < 2 ^ 32"
    and "used (fold op_disk ops empty_disk) + record_size (WalEntry.Set k f) + record_size (WalEntry.Set k g) < 2 ^ 64"
  shows "\<exists>db sys db2. and_then (new_database X name) (run_ops X name ops) = Inr db
    \<and> server_run X ord (fresh_system db [one_request (Request.Set k f), one_request (Request.Set k g)])
        (race k f g) sys
    \<and> Database_get k (sys_db sys) = Inr f
    \<and> Database_restart X name (sys_db sys) = Inr db2 \<and> Database_get k db2 = Inr g"
proof -
  obtain db0 where db0: "new_database X name = Inr db0" "tracks X (name_field name) db0 Map.empty empty_disk"
    using new_database_tracks [OF assms(2)] by blast
  obtain db ss where db: "run_ops X name ops db0 = Inr db" "db_clean X (name_field name) db ss"
    "length (f_bytes (db_file db)) + log_size db \<le> used (fold op_disk ops empty_disk)"
    using run_all [OF assms(1,2) db0(2) assms(3)] by (auto simp: tracks_def)
  have rep: "db_rep X (name_field name) db ss" using db(2) by (simp add: db_clean_def)
  have len: "length (request_bytes (Request.Set k h)) < 2 ^ 32" if "h \<in> {f, g}" for h
    using that assms(7,8) by (auto simp: Key_len_def)
  have room: "length (f_bytes (db_file db)) + log_size db + record_size (WalEntry.Set k f)
      + record_size (WalEntry.Set k g) < 2 ^ 64"
    using db(3) assms(9) by simp
  obtain sys where sys: "server_run X ord (fresh_system db [one_request (Request.Set k f), one_request (Request.Set k g)])
      (race k f g) sys"
    "db_rep X (name_field name) (sys_db sys) ss" "db_log (sys_db sys) = db_log db @ [WalEntry.Set k f, WalEntry.Set k g]"
    "db_fields (sys_db sys) k = Some f"
    using racing_run [OF assms(1) rep assms(4-6) len room] by blast
  obtain db2 where "Database_restart X name (sys_db sys) = Inr db2" "db_fields db2 = replayed (db_log (sys_db sys)) ss"
    using Database_restart_ok [OF assms(1) sys(2) assms(2)] db(2) by (auto simp: db_clean_def)
  moreover from this(2) have "db_fields db2 k = Some g"
    using replayed_append [of "db_log db @ [WalEntry.Set k f]" "WalEntry.Set k g" ss k] sys(3) by simp
  moreover have "and_then (new_database X name) (run_ops X name ops) = Inr db" by (simp add: db0(1) db(1))
  moreover have "Database_get k (sys_db sys) = Inr f" by (simp add: sys(4) Database_get_def)
  moreover have "Database_get k db2 = Inr g" if "db_fields db2 k = Some g" for db2
    by (simp add: that Database_get_def)
  ultimately show ?thesis using sys(1) by blast
qed

theorem racing_writes_diverge_witness:
  "\<exists>db (sys :: system) db2. and_then (new_database (documented_crates (\<lambda>_. 7)) (ascii ''peach''))
        (run_ops (documented_crates (\<lambda>_. 7)) (ascii ''peach'') []) = Inr db
    \<and> Database_get (Key [107]) (sys_db sys) = Inr (Field.Raw [1])
    \<and> Database_restart (documented_crates (\<lambda>_. 7)) (ascii ''peach'') (sys_db sys) = Inr db2
    \<and> Database_get (Key [107]) db2 = Inr (Field.Raw [2])"
proof -
  let ?k = "Key [107]" and ?f = "Field.Raw [1]" and ?g = "Field.Raw [2]"
  have small: "storable_key ?k" "storable_field ?f" "storable_field ?g" "admissible_all [] empty_disk"
    "8 + Key_len ?k + length (bytes_from_field ?f) < 2 ^ 32" "8 + Key_len ?k + length (bytes_from_field ?g) < 2 ^ 32"
    "used (fold op_disk [] empty_disk) + record_size (WalEntry.Set ?k ?f) + record_size (WalEntry.Set ?k ?g) < 2 ^ 64"
    by (simp_all add: empty_disk_def storable_key_def storable_field_def Key_len_def)
  have "length (ascii ''peach'') \<le> 64" by simp
  from racing_writes_diverge [OF documented.byteorder_axioms [of "\<lambda>_. 7"] this small(4,1-3,5-7), of rev]
  show ?thesis by blast
qed

end
