(* ===== verification/Cli.thy ===== *)
theory Cli
  imports Kv_Service
begin

text \<open>
  \<^verbatim>\<open>examples/peachdb-cli.rs\<close>: the command-line client. A run is given its arguments (the
  program's name first) and what connecting to an address returns; it ends with what it wrote to
  standard output and standard error and its exit code, or by a panic (\<open>None\<close>). The two
  conversions of the standard library between decimal text and binary floating point,
  \<open>str::parse::<f64>\<close> and \<open>Display\<close> of \<open>f64\<close>, are a parameter; nothing is assumed of them.
  Integers are parsed and printed as the standard library does.
\<close>

section \<open>Numbers as text\<close>

record float_text =
  parse_f64 :: "rstring \<Rightarrow> f64_bits option"
  fmt_f64 :: "f64_bits \<Rightarrow> rstring"

definition digit_value :: "u8 \<Rightarrow> nat option" where
  "digit_value b = (if 48 \<le> unat b \<and> unat b \<le> 57 then Some (unat b - 48) else None)"

fun parse_digits :: "nat \<Rightarrow> rstring \<Rightarrow> nat option" where
  "parse_digits acc [] = Some acc"
| "parse_digits acc (b # bs) =
     (case digit_value b of None \<Rightarrow> None | Some d \<Rightarrow> parse_digits (10 * acc + d) bs)"

text \<open>\<open>str::parse::<i64>\<close>: an optional sign, at least one digit, and a value in range.\<close>

definition parse_i64 :: "rstring \<Rightarrow> i64 option" where
  "parse_i64 s =
     (let (neg, digits) =
        (case s of b # bs \<Rightarrow> if b = 45 then (True, bs) else if b = 43 then (False, bs) else (False, s)
         | [] \<Rightarrow> (False, []))
      in if digits = [] then None
         else case parse_digits 0 digits of
           None \<Rightarrow> None
         | Some n \<Rightarrow>
             let v = (if neg then - int n else int n)
             in if - (2 ^ 63) \<le> v \<and> v < 2 ^ 63 then Some (of_int v) else None)"

definition fmt_i64 :: "i64 \<Rightarrow> rstring" where
  "fmt_i64 n = (if sint n < 0 then 45 # fmt_dec (nat (- sint n)) else fmt_dec (nat (sint n)))"

section \<open>Arguments\<close>

definition DEFAULT_ADDR :: rstring where
  "DEFAULT_ADDR = ascii ''127.0.0.1:7878''"

definition USAGE :: rstring where
  "USAGE = ascii ''Usage: peachdb-cli [--addr <host:port>] <command> [args]'' @ [10, 10]
     @ ascii ''Commands:'' @ [10]
     @ ascii ''  ping'' @ [10]
     @ ascii ''  get  <key>'' @ [10]
     @ ascii ''  set  <key> <value>'' @ [10]
     @ ascii ''  del  <key>'' @ [10]
     @ ascii ''  keys''"

definition parse_addr :: "rstring list \<Rightarrow> rstring \<times> rstring list" where
  "parse_addr args =
     (if 2 \<le> length args \<and> args ! 0 = ascii ''--addr'' then (args ! 1, drop 2 args)
      else (DEFAULT_ADDR, args))"

definition require_arg :: "rstring list \<Rightarrow> nat \<Rightarrow> rstring \<Rightarrow> rstring + rstring" where
  "require_arg args idx usage =
     (if idx < length args then Inr (args ! idx) else Inl (ascii ''usage: '' @ usage))"

definition parse_value :: "float_text \<Rightarrow> rstring \<Rightarrow> Field" where
  "parse_value ft s =
     (if s = ascii ''true'' then Field.Primitive (Primitive.Boolean True)
      else if s = ascii ''false'' then Field.Primitive (Primitive.Boolean False)
      else
        case parse_i64 s of
          Some n \<Rightarrow> Field.Primitive (Primitive.Integer n)
        | None \<Rightarrow>
            (case parse_f64 ft s of
               Some f \<Rightarrow> Field.Primitive (Primitive.Float f)
             | None \<Rightarrow> Field.Primitive (Primitive.String s)))"

text \<open>\<open>args[0]\<close> panics on an empty list: \<open>None\<close>.\<close>

definition build_request :: "float_text \<Rightarrow> rstring list \<Rightarrow> (rstring + Request) option" where
  "build_request ft args =
     (case args of
        [] \<Rightarrow> None
      | cmd # _ \<Rightarrow> Some
          (if cmd = ascii ''ping'' then Inr Request.Ping
           else if cmd = ascii ''keys'' then Inr Request.Keys
           else if cmd = ascii ''get'' then
             and_then (require_arg args 1 (ascii ''get <key>'')) (\<lambda>key. Inr (Request.Get (Key key)))
           else if cmd = ascii ''del'' then
             and_then (require_arg args 1 (ascii ''del <key>'')) (\<lambda>key. Inr (Request.Del (Key key)))
           else if cmd = ascii ''set'' then
             and_then (require_arg args 1 (ascii ''set <key> <value>'')) (\<lambda>key.
             and_then (require_arg args 2 (ascii ''set <key> <value>'')) (\<lambda>value.
             Inr (Request.Set (Key key) (parse_value ft value))))
           else Inl (ascii ''unknown command: '' @ [39] @ cmd @ [39])))"

section \<open>Talking to the server\<close>

definition send_request :: "Request \<Rightarrow> TcpStream \<Rightarrow> (io_error + unit) \<times> TcpStream" where
  "send_request req s =
     Tcp_write_all (ProtocolEncoder_frame (ProtocolEncoder_encode_request req ProtocolEncoder_new)) s"

text \<open>The blocking \<open>read_exact\<close> of the standard library differs from tokio's in its error text.\<close>

definition Std_read_exact :: "nat \<Rightarrow> TcpStream \<Rightarrow> (io_error + bytes) \<times> TcpStream" where
  "Std_read_exact n s =
     (if n \<le> length (ts_in s) then (Inr (take n (ts_in s)), s\<lparr>ts_in := drop n (ts_in s)\<rparr>)
      else (Inl (case ts_end s of None \<Rightarrow> eof_error | Some e \<Rightarrow> e), s\<lparr>ts_in := []\<rparr>))"

text \<open>An \<open>Err\<close> of the decoder becomes an \<open>Other\<close> I/O error; its panic is the left \<open>None\<close>.\<close>

definition read_response :: "third_party \<Rightarrow> TcpStream \<Rightarrow> (io_error option + Response) \<times> TcpStream" where
  "read_response X s =
     (case Std_read_exact 4 s of
        (Inl e, s) \<Rightarrow> (Inl (Some e), s)
      | (Inr len_buf, s) \<Rightarrow>
          (let len = unat (from_be_bytes len_buf :: u32) in
           case Std_read_exact len s of
             (Inl e, s) \<Rightarrow> (Inl (Some e), s)
           | (Inr buf, s) \<Rightarrow>
               (case and_then (ProtocolDecoder_decode_response X (ProtocolDecoder_new buf)) (\<lambda>(res, _). Inr res) of
                  Inl Panic \<Rightarrow> (Inl None, s)
                | Inl (Err e) \<Rightarrow> (Inl (Some (io_other (error_to_string e))), s)
                | Inr res \<Rightarrow> (Inr res, s))))"

section \<open>Output\<close>

record cli_outcome =
  cli_out :: rstring
  cli_err :: rstring
  cli_code :: nat

definition printed :: "rstring \<Rightarrow> cli_outcome" where
  "printed line = \<lparr>cli_out = line @ [10], cli_err = [], cli_code = 0\<rparr>"

definition failed :: "rstring \<Rightarrow> cli_outcome" where
  "failed line = \<lparr>cli_out = [], cli_err = line @ [10], cli_code = 1\<rparr>"

text \<open>The derived \<open>{:?}\<close> of a data type.\<close>

fun Dtype_debug :: "Dtype \<Rightarrow> rstring" where
  "Dtype_debug Dtype.Raw = ascii ''Raw''"
| "Dtype_debug Dtype.Integer = ascii ''Integer''"
| "Dtype_debug Dtype.Float = ascii ''Float''"
| "Dtype_debug Dtype.String = ascii ''String''"
| "Dtype_debug Dtype.Boolean = ascii ''Boolean''"
| "Dtype_debug (Dtype.Array t) = ascii ''Array('' @ fmt_dec (unat t) @ ascii '')''"

fun display_field :: "float_text \<Rightarrow> Field \<Rightarrow> rstring" where
  "display_field ft (Field.Primitive (Primitive.Integer n)) = ascii ''Integer('' @ fmt_i64 n @ ascii '')''"
| "display_field ft (Field.Primitive (Primitive.Float f)) = ascii ''Float('' @ fmt_f64 ft f @ ascii '')''"
| "display_field ft (Field.Primitive (Primitive.String s)) = ascii ''String('' @ [34] @ s @ [34] @ ascii '')''"
| "display_field ft (Field.Primitive (Primitive.Boolean b)) =
     ascii ''Boolean('' @ (if b then ascii ''true'' else ascii ''false'') @ ascii '')''"
| "display_field ft (Field.Raw bs) = ascii ''Raw(<'' @ fmt_dec (length bs) @ ascii '' bytes>)''"
| "display_field ft (Field.Array dtype arr) =
     ascii ''Array('' @ Dtype_debug dtype @ ascii '', '' @ fmt_dec (length arr) @ ascii '' elements)''"

fun print_response :: "float_text \<Rightarrow> Response \<Rightarrow> cli_outcome" where
  "print_response ft (Response.Ok None) = printed (ascii ''OK'')"
| "print_response ft (Response.Ok (Some field)) = printed (display_field ft field)"
| "print_response ft Response.NotFound = printed (ascii ''NOT FOUND'')"
| "print_response ft Response.TypeError = printed (ascii ''TYPE ERROR'')"
| "print_response ft Response.InvalidRequest = failed (ascii ''error: invalid request'')"
| "print_response ft (Response.ServerError msg) = failed (ascii ''server error: '' @ msg)"
| "print_response ft (Response.Keys keys) =
     (if keys = [] then printed (ascii ''(empty)'')
      else \<lparr>cli_out = concat (map (\<lambda>key. from_utf8_lossy (Key_as_bytes key) @ [10]) keys),
            cli_err = [], cli_code = 0\<rparr>)"

text \<open>The run, with the stream as it leaves it; slicing \<open>args[1..]\<close> panics when there are none.\<close>

definition cli_main ::
    "float_text \<Rightarrow> third_party \<Rightarrow> rstring list \<Rightarrow> (rstring \<Rightarrow> io_error + TcpStream)
     \<Rightarrow> cli_outcome option \<times> TcpStream option" where
  "cli_main ft X args connect =
     (if args = [] then (None, None)
      else
        let (addr, rest) = parse_addr (tl args) in
        if rest = [] then (Some (failed USAGE), None)
        else
          case build_request ft rest of
            None \<Rightarrow> (None, None)
          | Some (Inl msg) \<Rightarrow> (Some (failed (ascii ''error: '' @ msg @ [10] @ USAGE)), None)
          | Some (Inr req) \<Rightarrow>
          case connect addr of
            Inl e \<Rightarrow> (Some (failed (ascii ''error: could not connect to '' @ addr @ ascii '': '' @ io_msg e)), None)
          | Inr stream \<Rightarrow>
          case send_request req stream of
            (Inl e, stream) \<Rightarrow> (Some (failed (ascii ''error: failed to send request: '' @ io_msg e)), Some stream)
          | (Inr _, stream) \<Rightarrow>
          case read_response X stream of
            (Inl None, stream) \<Rightarrow> (None, Some stream)
          | (Inl (Some e), stream) \<Rightarrow>
              (Some (failed (ascii ''error: failed to read response: '' @ io_msg e)), Some stream)
          | (Inr res, stream) \<Rightarrow> (Some (print_response ft res), Some stream))"

section \<open>Numbers\<close>

lemma parse_digits_append:
  "parse_digits acc (xs @ ys) = (case parse_digits acc xs of None \<Rightarrow> None | Some a \<Rightarrow> parse_digits a ys)"
  by (induction xs arbitrary: acc) (auto split: option.split)

lemma digit_value_of_nat:
  assumes "d < 10"
  shows "digit_value (of_nat (48 + d)) = Some d"
proof -
  have "unat (of_nat (48 + d) :: u8) = 48 + d" using assms by (simp only: unat_of_nat take_bit_nat_def) simp
  then show ?thesis using assms by (simp only: digit_value_def) simp
qed

lemma parse_digits_fmt_dec: "parse_digits 0 (fmt_dec n) = Some n"
proof (induction n rule: fmt_dec.induct)
  case (1 n)
  show ?case
  proof (cases "n < 10")
    case True
    then show ?thesis using digit_value_of_nat [of n] by (subst fmt_dec.simps) simp
  next
    case False
    then show ?thesis using digit_value_of_nat [of "n mod 10"] 1
      by (subst fmt_dec.simps) (simp add: parse_digits_append)
  qed
qed

lemma fmt_dec_digits: "fmt_dec n \<noteq> [] \<and> (\<forall>b \<in> set (fmt_dec n). digit_value b \<noteq> None)"
proof (induction n rule: fmt_dec.induct)
  case (1 n)
  then show ?case using digit_value_of_nat [of n] digit_value_of_nat [of "n mod 10"]
    by (cases "n < 10") (subst (1 2) fmt_dec.simps, simp)+
qed

lemma fmt_dec_no_sign:
  assumes "fmt_dec n = b # bs"
  shows "b \<noteq> 45 \<and> b \<noteq> 43"
  using fmt_dec_digits [of n] assms by (auto simp: digit_value_def)

lemma parse_fmt_i64: "parse_i64 (fmt_i64 n) = Some n"
proof -
  have range: "- (2 ^ 63) \<le> sint n" "sint n < 2 ^ 63"
    using sint_ge [of n] sint_lt [of n] by simp_all
  obtain b bs where dec: "fmt_dec (nat (sint n)) = b # bs" using fmt_dec_digits [of "nat (sint n)"] by (cases "fmt_dec (nat (sint n))") auto
  show ?thesis
  proof (cases "sint n < 0")
    case True
    then show ?thesis
      using range fmt_dec_digits [of "nat (- sint n)"]
      by (simp add: parse_i64_def fmt_i64_def parse_digits_fmt_dec Let_def)
  next
    case False
    have "parse_digits 0 (b # bs) = Some (nat (sint n))" using parse_digits_fmt_dec [of "nat (sint n)"] dec by simp
    then show ?thesis
      using False range fmt_dec_no_sign [OF dec]
      by (simp add: parse_i64_def fmt_i64_def dec Let_def del: parse_digits.simps)
  qed
qed

text \<open>A decimal integer in range is stored as an integer, whatever the float parser accepts.\<close>

lemma parse_value_i64: "parse_value ft (fmt_i64 n) = Field.Primitive (Primitive.Integer n)"
proof -
  have "fmt_i64 n \<noteq> ascii ''true''" "fmt_i64 n \<noteq> ascii ''false''"
    using parse_fmt_i64 [of n] by (auto simp: parse_i64_def digit_value_def split: if_split_asm)
  then show ?thesis by (simp add: parse_value_def parse_fmt_i64)
qed

lemma set_integer_request:
  "build_request ft [ascii ''set'', k, fmt_i64 n] = Some (Inr (Request.Set (Key k) (Field.Primitive (Primitive.Integer n))))"
  by (simp add: build_request_def require_arg_def parse_value_i64)

section \<open>What the server stores can be sent\<close>

lemma slot_values_mem: "f \<in> set (slot_values k x) \<Longrightarrow> x = Live k f"
  by (cases x) (auto split: if_split_asm)

lemma tracked_storable:
  assumes "tracks X nm db m d" and "m k = Some f"
  shows "storable_key k \<and> storable_field f"
proof -
  obtain ss where ss: "db_clean X nm db ss" "db_fields db = m" using assms(1) by (auto simp: tracks_def)
  then have rep: "db_rep X nm db ss" and m: "replayed (db_log db) ss k = Some f"
    using assms(2) by (simp_all add: db_clean_def)
  show ?thesis
  proof (cases "logged (db_log db) k")
    case None
    then have "f \<in> set (live_values ss k)"
      using m by (auto simp: replayed_def slots_map_live_values split: if_split_asm)
    then have "Live k f \<in> set ss"
      unfolding live_values_def by (auto dest: slot_values_mem)
    then show ?thesis using db_repD(7) [OF rep] by fastforce
  next
    case (Some v)
    then have "hm_get (net_entries (db_log db)) k = Some (WalEntry.Set k f)"
      using m by (simp add: replayed_def logged_Set_iff [symmetric])
    then have "WalEntry.Set k f \<in> set (db_log db)" using hm_get_net_entries_in by blast
    then show ?thesis using db_repD(4) [OF rep] by (fastforce simp: wal_inv_def)
  qed
qed

text \<open>The maps whose values and key list fit a response.\<close>

definition sendable :: "(Key \<Rightarrow> Field option) \<Rightarrow> bool" where
  "sendable m = ((\<forall>k f. m k = Some f \<longrightarrow> 5 + length (bytes_from_field f) < 2 ^ 32)
     \<and> 5 + (\<Sum>k\<in>dom m. 2 + Key_len k) < 2 ^ 32)"

lemma length_keys_payload: "length (keys_payload ks) = (\<Sum>k\<leftarrow>ks. 2 + Key_len k)"
  by (induction ks) (simp_all add: keys_payload_def response_key_bytes_def Key_len_def)

lemma length_response_bytes:
  "length (response_bytes (Response.Ok None)) = 5"
  "length (response_bytes (Response.Ok (Some f))) = 5 + length (bytes_from_field f)"
  "length (response_bytes Response.NotFound) = 5"
  "length (response_bytes (Response.Keys ks)) = 5 + length (keys_payload ks)"
  by (simp_all add: response_bytes_simps)

lemma answer_sendable:
  assumes "tracks X nm db m d" and "sendable m" and "answers req m res m'"
  shows "storable_response res \<and> length (response_bytes res) < 2 ^ 32"
proof (cases req)
  case (Get k)
  then show ?thesis
    using assms tracked_storable [OF assms(1), of k]
    by (cases "m k") (auto simp: sendable_def length_response_bytes)
next
  case Keys
  then obtain ks where ks: "res = Response.Keys ks" "distinct ks" "set ks = dom m" using assms(3) by auto
  then have "length (keys_payload ks) = (\<Sum>k\<in>dom m. 2 + Key_len k)"
    by (simp add: length_keys_payload sum.distinct_set_conv_list [symmetric])
  moreover have "\<forall>k \<in> set ks. storable_key k" using ks(3) tracked_storable [OF assms(1)] by auto
  ultimately show ?thesis using assms(2) ks(1) by (simp add: sendable_def length_response_bytes)
qed (use assms(3) in \<open>auto simp: length_response_bytes\<close>)

lemma read_response_frame:
  assumes "byteorder X" and "storable_response res" and "length (response_bytes res) < 2 ^ 32"
    and "ts_in s = framed_response res"
  shows "read_response X s = (Inr res, s\<lparr>ts_in := []\<rparr>)"
  using assms byteorder.decode_response_bytes [OF assms(1,2), of "[]"]
  by (simp add: read_response_def Std_read_exact_def framed_response message_frame_def from_to_be_bytes
      unat_of_nat_u32 decode_response_def Let_def)

section \<open>Properties\<close>

text \<open>
  C5. Client, protocol, server and storage engine together: what the client builds from its arguments
  reaches the server as that request, the server answers it as the map answers it, and the client prints
  that answer; the two ends agree on every byte exchanged.
\<close>

theorem client_prints_answer:
  assumes "byteorder X" and "length name \<le> 64" and "hash_order ord" and "admissible_all ops empty_disk"
    and "parse_addr args = (addr, rest)" and "build_request ft rest = Some (Inr req)"
    and "storable_request req" and "length (request_bytes req) < 2 ^ 32"
    and "admissible_all (request_ops req) (fold op_disk ops empty_disk)" and "sendable (fold op_map ops Map.empty)"
  shows "\<exists>db db' s' res stream. and_then (new_database X name) (run_ops X name ops) = Inr db
    \<and> handle_connection X ord (db, one_request req) = (Inr (), db', s')
    \<and> answers req (fold op_map ops Map.empty) res (db_fields db')
    \<and> cli_main ft X (prog # args) (\<lambda>_. Inr \<lparr>ts_in = ts_out s', ts_end = None, ts_out = [], ts_plan = []\<rparr>)
        = (Some (print_response ft res), Some stream)
    \<and> ts_out stream = ts_in (one_request req)"
proof -
  let ?nm = "name_field name" and ?m = "fold op_map ops Map.empty" and ?d = "fold op_disk ops empty_disk"
  obtain db0 where db0: "new_database X name = Inr db0" "tracks X ?nm db0 Map.empty empty_disk"
    using new_database_tracks [OF assms(2)] by blast
  obtain db where db: "run_ops X name ops db0 = Inr db" "tracks X ?nm db ?m ?d"
    using run_all [OF assms(1,2) db0(2) assms(4)] by blast
  have m: "db_fields db = ?m" by (rule tracks_fields [OF db(2)])
  obtain res db' where res: "handle_request ord req db = (Inr res, db')" "answers req ?m res (db_fields db')"
    using handle_request_ok [OF assms(3) _ assms(9), of X ?nm db] db(2) m by (auto simp: serving_def)
  have dec: "decode_request X (request_bytes req) = Inr req"
    using byteorder.decode_request_bytes [OF assms(1,7), of "[]"] by simp
  have "ts_in (one_request req) = concat (map message_frame [request_bytes req])" by (simp add: one_request_def)
  from handle_connection_frames [OF this, of X ord db "Inr ()" "[res]" db'] assms(8) dec res(1)
  obtain s' where s': "handle_connection X ord (db, one_request req) = (Inr (), db', s')" "ts_out s' = framed_response res"
    by (auto simp: respond_def one_request_def)
  let ?c = "\<lparr>ts_in = ts_out s', ts_end = None, ts_out = message_frame (request_bytes req), ts_plan = []\<rparr>"
  have "read_response X ?c = (Inr res, ?c\<lparr>ts_in := []\<rparr>)"
    using answer_sendable [OF db(2) assms(10) res(2)] s'(2) by (intro read_response_frame [OF assms(1)]) simp_all
  then have "cli_main ft X (prog # args) (\<lambda>_. Inr \<lparr>ts_in = ts_out s', ts_end = None, ts_out = [], ts_plan = []\<rparr>)
      = (Some (print_response ft res), Some (?c\<lparr>ts_in := []\<rparr>))"
    using assms(5,6) by (auto simp: cli_main_def send_request_def framed_request Tcp_write_all_def build_request_def)
  moreover have "and_then (new_database X name) (run_ops X name ops) = Inr db" by (simp add: db0(1) db(1))
  moreover have "ts_out (?c\<lparr>ts_in := []\<rparr>) = ts_in (one_request req)" by (simp add: one_request_def)
  ultimately show ?thesis using s'(1) res(2) by blast
qed

text \<open>\<open>peachdb-cli get k\<close> after \<open>peachdb-cli set k -7\<close>.\<close>

theorem client_prints_answer_witness:
  "\<exists>db db' s' stream. handle_connection (documented_crates (\<lambda>_. 7)) rev
        (db, one_request (Request.Get (Key (ascii ''k'')))) = (Inr (), db', s')
    \<and> cli_main \<lparr>parse_f64 = (\<lambda>_. None), fmt_f64 = (\<lambda>_. [])\<rparr> (documented_crates (\<lambda>_. 7))
      [ascii ''peachdb-cli'', ascii ''get'', ascii ''k'']
      (\<lambda>_. Inr \<lparr>ts_in = ts_out s', ts_end = None, ts_out = [], ts_plan = []\<rparr>)
    = (Some (printed (ascii ''Integer(-7)'')), Some stream)"
proof -
  let ?X = "documented_crates (\<lambda>_. 7)" and ?ft = "\<lparr>parse_f64 = (\<lambda>_. None), fmt_f64 = (\<lambda>_. [])\<rparr> :: float_text"
  let ?f = "Field.Primitive (Primitive.Integer (- 7))" and ?k = "Key (ascii ''k'')"
  let ?args = "[ascii ''get'', ascii ''k'']" and ?ops = "[OpSet ?k ?f]"
  have build: "build_request ?ft ?args = Some (Inr (Request.Get ?k))" by (simp add: build_request_def require_arg_def)
  have parse: "parse_addr ?args = (DEFAULT_ADDR, ?args)" by (simp add: parse_addr_def)
  have adm: "admissible_all ?ops empty_disk" by (simp add: admissible_eval)
  have small: "storable_request (Request.Get ?k)" "length (request_bytes (Request.Get ?k)) < 2 ^ 32"
    "admissible_all (request_ops (Request.Get ?k)) (fold op_disk ?ops empty_disk)"
    by (simp_all add: storable_key_def Key_len_def request_bytes_simps response_key_bytes_def)
  have send: "sendable (fold op_map ?ops Map.empty)" by (simp add: sendable_def Key_len_def)
  have name: "length (ascii ''peach'') \<le> 64" by simp
  have shown: "display_field ?ft ?f = ascii ''Integer(-7)''" by (simp add: fmt_i64_def fmt_dec.simps)
  obtain db db' s' res stream where "handle_connection ?X rev (db, one_request (Request.Get ?k)) = (Inr (), db', s')"
    "answers (Request.Get ?k) (fold op_map ?ops Map.empty) res (db_fields db')"
    "cli_main ?ft ?X (ascii ''peachdb-cli'' # ?args) (\<lambda>_. Inr \<lparr>ts_in = ts_out s', ts_end = None, ts_out = [], ts_plan = []\<rparr>)
      = (Some (print_response ?ft res), Some stream)"
    using client_prints_answer [where prog = "ascii ''peachdb-cli''", OF documented.byteorder_axioms name hash_order_instances(2) adm parse build small send] by blast
  then show ?thesis using shown by auto
qed

end
