(* ===== verification/Spec2Isabelle.thy ===== *)
theory Spec2Isabelle
  imports Flush_Race File_Queue Concurrent_Durability Cli
begin

text \<open>
  A verification library for PeachDB (Rust, \<^verbatim>\<open>src/\<close> and \<^verbatim>\<open>examples/\<close>).

  \<^bold>\<open>The program.\<close> PeachDB is a key-value store. All fields are in memory, in a hash map
  (\<^verbatim>\<open>db.rs\<close>, \<open>State\<close>). A \<open>set\<close> or \<open>delete\<close> is encoded, appended to the write-ahead log
  (\<^verbatim>\<open>.wal\<close>) and synced before it changes the map. \<open>flush\<close> moves what the log says to the data
  file (\<^verbatim>\<open>.db\<close>): a record is appended for every key set, and a key deleted has the record the index
  knows overwritten by a tombstone of the same size; then the record count in the header is
  patched, the index file (\<^verbatim>\<open>.dbidx\<close>) rewritten and the log truncated. \<open>open\<close> decodes the data
  file, reads or rebuilds the index, and replays the log. A TCP server offers the map to
  clients in length-prefixed frames, one task per connection, and a command-line client speaks to it.

  \<^bold>\<open>Conventions.\<close> Definitions keep the source's names; a method \<open>m\<close> of a type \<open>T\<close> is \<open>T_m\<close>
  and takes its object last. A result is \<open>Inr\<close> of a value or \<open>Inl\<close> of a failure, which is an
  error of the code or a panic (\<open>PDBResult\<close>); an operation on files or on the log returns its
  result together with the object as it leaves it, so that the state after a failure is also
  defined. Integers have their width, and casts that truncate do so in the model.

  \<^bold>\<open>Theories, bottom up.\<close>
  \<^item> \<^verbatim>\<open>Prelude\<close>: words and their bytes, \<open>and_then\<close> (the operator \<^verbatim>\<open>?\<close>), \<open>splice\<close>.
  \<^item> \<^verbatim>\<open>Errors\<close> (\<^verbatim>\<open>error.rs\<close>), \<^verbatim>\<open>Utf8\<close> (\<open>String::from_utf8\<close> and its relatives),
    \<^verbatim>\<open>Dtypes\<close> (\<^verbatim>\<open>dtypes.rs\<close>), \<^verbatim>\<open>Hash_Map\<close>, \<^verbatim>\<open>Byte_Cursor\<close> (the third-party crates and the
    contracts \<open>entry_stream\<close> and \<open>torn_stream\<close> that all the formats share). Field values:
    the encoding round trips, is injective, and what decodes is canonical; which buffers panic.
  \<^item> \<^verbatim>\<open>Wal_Codec\<close>, \<^verbatim>\<open>Db_Encoder\<close>, \<^verbatim>\<open>Db_Decoder\<close>, \<^verbatim>\<open>Index_Codec\<close> (\<^verbatim>\<open>db/codec.rs\<close>): the three
    file formats, both directions of each, and the index rebuilt from a data file. Round trips for
    any iteration order of the hash maps, closed forms of what is written, what a tombstone
    does, and the rejection of torn and corrupted input.
  \<^item> \<^verbatim>\<open>File_Handler\<close> and \<^verbatim>\<open>File_Queue\<close> (\<^verbatim>\<open>db/file.rs\<close>): the file and the commands of the task
    that owns it, with every pattern of failing calls, at once or late; then the bounded channel between
    the clients and that task as a step relation, in which clients may be cancelled, and the theorem
    that the clients share the file as if every command were one atomic operation on its content. The
    contracts \<open>log_file\<close>, \<open>data_file\<close> and
    \<open>failing_file\<close> are what the log and the engine use of a file; \<open>owned_resource\<close> is the contract of a
    task that owns a resource with a meaning.
  \<^item> \<^verbatim>\<open>Write_Ahead_Log\<close> (\<^verbatim>\<open>db/wal.rs\<close>) and \<^verbatim>\<open>Database\<close> (\<^verbatim>\<open>db/db.rs\<close>, \<^verbatim>\<open>db/mod.rs\<close>): every
    operation of the log and of the engine.
  \<^item> \<^verbatim>\<open>Flush_Slots\<close> and \<^verbatim>\<open>Database_Rep\<close>: the flush on slots instead of bytes, the representation
    invariant \<open>db_rep\<close> and what every operation does to it when the files do not fail.
  \<^item> \<^verbatim>\<open>Durable_Store\<close>: the engine as a map. Histories of sets, deletes, flushes and restarts,
    run on files by the code's operations, refine the same histories on a map; the side
    condition (\<open>admissible_all\<close>) is needed, by a history where a deleted key returns.
  \<^item> \<^verbatim>\<open>Crash_Safety\<close>: the same when calls on the files fail. An acknowledged \<open>set\<close> survives unless
    the write of its entry failed late, and then it is lost; a flush can stop at any call that writes
    nothing and nothing is lost; half-written records and log entries block a restart.
  \<^item> \<^verbatim>\<open>Flush_Race\<close>: a write by another task between the two places where \<open>flush\<close> holds the log.
  \<^item> \<^verbatim>\<open>Protocol\<close> (\<^verbatim>\<open>server/protocol.rs\<close>) and \<^verbatim>\<open>Server\<close> (\<^verbatim>\<open>server/server.rs\<close>, \<^verbatim>\<open>main.rs\<close>): the
    messages, the frames, the request handler, the connection loop and the accept loop.
  \<^item> \<^verbatim>\<open>Kv_Service\<close>: what a client may rely on. The contract \<open>request_service\<close> relates the handler
    to a map; a connection is answered as the map answers its messages, and equals a loop over messages
    without streams and frames. How connections end on malformed and torn input.
  \<^item> \<^verbatim>\<open>Concurrent_Server\<close> and \<^verbatim>\<open>Concurrent_Durability\<close>: the tasks of any number of connections
    interleaving (\<open>server_step\<close>), with the log's mutex and the two requests of \<open>append_entry\<close>. Every run
    is linearizable on the map in memory and bounded, and connections that wait for input block no other.
    A crash in a run without overlapping writes of a key leaves a database that opens with the map in
    memory, and the writes then under way at most, or, in the middle of writing a log entry, one that does
    not open; with overlapping writes, memory and log may differ.
  \<^item> \<^verbatim>\<open>Cli\<close> (\<^verbatim>\<open>examples/peachdb-cli.rs\<close>): a run of the client, from its arguments to what it
    prints, and the composition of client, protocol, server and engine.

  \<^bold>\<open>Code that is not in the repository\<close> is a parameter. The record \<open>third_party\<close> has the
  functions of the crates \<open>crc\<close> (nothing is assumed of the checksum) and \<open>byteorder\<close>, whose
  documented conversions are the locale \<open>byteorder\<close> and whose instance is
  \<open>documented_crates\<close>. The order in which Rust iterates a hash map is a function \<open>ord\<close> of
  which \<open>hash_order\<close> is assumed: it permutes a list of keys. Files and streams are
  passed to the code as opened, with a list of the outcomes of the calls to come. As documented for
  \<^verbatim>\<open>tokio::fs::File\<close>, a write may fail after \<open>write_all\<close> has returned (\<open>IoLate\<close>): the error is then kept
  for the next write (\<open>f_late\<close>), and \<open>sync_all\<close> does not report it. The channels, the mutex and the
  lock of tokio are modelled by their documented behaviour in the step relations. The standard
  library's conversions between text and floating point are the record \<open>float_text\<close>.

  \<^bold>\<open>Termination and bounds.\<close> No definition uses fuel. The decoding loops and
  \<open>handle_connection\<close> recurse with a termination proof, on the input that is left. The
  queue of a file handler holds 32 commands, as in the code. Runs of the server have no bound built in; that
  they end is a theorem, by the work the open connections still hold (\<open>task_work\<close>).
  Lengths of vectors are natural numbers, since a vector in memory is below the width of \<open>usize\<close>;
  where the code casts them to 16, 32 or 64 bits, the model wraps, and the theorems state the room they
  need.

  \<^bold>\<open>Not modelled.\<close> \<^verbatim>\<open>examples/bench.rs\<close> times calls of operations modelled here and prints rates;
  the unit tests are not part of the program. A \<open>flush\<close> runs as one step, except in
  \<^verbatim>\<open>Flush_Race\<close>, which lets other tasks in before its checkpoint; no request of the server
  flushes. A connection task dropped while it waits (runtime
  shutdown), the order in which a mutex serves those that wait for it (any order is a run), a full
  memory (\<open>vec![0; len]\<close> for the length a client announces) and a crash that loses data
  the file system had reported as synced are outside the model.
\<close>

end
